theory Spec2Isabelle
  imports Complex_Main "HOL-Library.Word"
begin

unbundle bit_operations_syntax

section \<open>Strings\<close>

text \<open>
  The TypeScript sources work on JavaScript strings.  Host names, header values, paths,
  categories and notes are modelled as \<^typ>\<open>string\<close>; the string methods the sources call
  are written out below under their JavaScript names.
\<close>

fun startsWith :: "string \<Rightarrow> string \<Rightarrow> bool" where
  "startsWith s [] = True"
| "startsWith [] (p # ps) = False"
| "startsWith (c # cs) (p # ps) = (c = p \<and> startsWith cs ps)"

fun includesStr :: "string \<Rightarrow> string \<Rightarrow> bool" where
  "includesStr [] pat = (pat = [])"
| "includesStr (c # cs) pat = (startsWith (c # cs) pat \<or> includesStr cs pat)"

definition endsWith :: "string \<Rightarrow> string \<Rightarrow> bool" where
  "endsWith s suf = startsWith (rev s) (rev suf)"

text \<open>
  A \<^typ>\<open>char\<close> stands for a code unit below 256.  On these, \<open>toLowerCase\<close> moves the
  letters A-Z and the accented capitals 192-214 and 216-222 up by 32 and leaves every other
  code unit alone.
\<close>

definition lowerChar :: "char \<Rightarrow> char" where
  "lowerChar c =
     (let n = (of_char c :: nat)
      in if (65 \<le> n \<and> n \<le> 90) \<or> (192 \<le> n \<and> n \<le> 214) \<or> (216 \<le> n \<and> n \<le> 222)
         then char_of (n + 32) else c)"

definition toLowerCase :: "string \<Rightarrow> string" where
  "toLowerCase s = map lowerChar s"

fun join :: "string list \<Rightarrow> string \<Rightarrow> string" where
  "join [] sep = []"
| "join [x] sep = x"
| "join (x # y # ys) sep = x @ sep @ join (y # ys) sep"

text \<open>
  A regular expression of the sources that is a finite choice of literal strings, compiled
  with the \<open>i\<close> flag, is given by the list of its (lowercase) literals; \<open>test\<close> looks for
  one of them anywhere in the subject, ignoring case.
\<close>

definition regexTest :: "string list \<Rightarrow> string \<Rightarrow> bool" where
  "regexTest alts s = list_ex (\<lambda>a. includesStr (toLowerCase s) a) alts"

text \<open>
  A JavaScript \<open>Set\<close> iterates in insertion order and \<open>add\<close> of a member changes
  nothing: a list without repetitions, extended at the end.
\<close>

definition setAdd :: "'a list \<Rightarrow> 'a \<Rightarrow> 'a list" where
  "setAdd s x = (if x \<in> set s then s else s @ [x])"

definition newSet :: "'a list \<Rightarrow> 'a list" where
  "newSet xs = foldl setAdd [] xs"

definition decDigit :: "nat \<Rightarrow> char" where
  "decDigit d = ''0123456789'' ! d"

fun numToString :: "nat \<Rightarrow> string" where
  "numToString n =
     (if n < 10 then [decDigit n] else numToString (n div 10) @ [decDigit (n mod 10)])"

declare numToString.simps [simp del]

section \<open>TLS fingerprint (src/core/probe.ts, computeJA3Lite)\<close>

text \<open>
  \<open>computeJA3Lite\<close> reads its input with \<open>charCodeAt\<close>, which yields UTF-16 code units, so
  the strings it hashes are lists of 16-bit code units.  The accumulator \<open>h\<close> is kept as an
  unsigned 32-bit value (\<open>>>> 0\<close> after every \<open>Math.imul\<close>).
\<close>

type_synonym codeunit = "16 word"

definition units :: "string \<Rightarrow> codeunit list" where
  "units s = map (\<lambda>c. of_nat (of_char c)) s"

fun fnvLoop :: "32 word \<Rightarrow> codeunit list \<Rightarrow> 32 word" where
  "fnvLoop h [] = h"
| "fnvLoop h (u # us) = fnvLoop ((h XOR ucast u) * 16777619) us"

definition hexDigit :: "nat \<Rightarrow> char" where
  "hexDigit d = ''0123456789abcdef'' ! d"

fun toString16 :: "nat \<Rightarrow> string" where
  "toString16 n =
     (if n < 16 then [hexDigit n] else toString16 (n div 16) @ [hexDigit (n mod 16)])"

declare toString16.simps [simp del]

definition computeJA3Lite ::
  "codeunit list option \<Rightarrow> codeunit list option \<Rightarrow> codeunit list option \<Rightarrow> string" where
  "computeJA3Lite protocol cipher sigAlg =
     (let p = (case protocol of None \<Rightarrow> units ''unknown'' | Some v \<Rightarrow> v);
          c = (case cipher of None \<Rightarrow> units ''unknown'' | Some v \<Rightarrow> v);
          s = (case sigAlg of None \<Rightarrow> units ''unknown'' | Some v \<Rightarrow> v);
          str = p @ units ''|'' @ c @ units ''|'' @ s;
          h = fnvLoop 2166136261 str
      in ''ja3lite-'' @ toString16 (unat h))"

text \<open>
  The handshake callback of \<open>extractTLSInfoSafe\<close>: \<open>socket.getProtocol() || 'unknown'\<close> and
  \<open>socket.getCipher()?.name || 'unknown'\<close> replace a missing or empty value by
  \<open>'unknown'\<close>; the signature algorithm is the constant \<open>undefined\<close>.
\<close>

definition orUnknown :: "codeunit list option \<Rightarrow> codeunit list" where
  "orUnknown v = (case v of None \<Rightarrow> units ''unknown''
                  | Some s \<Rightarrow> if s = [] then units ''unknown'' else s)"

definition handshakeJA3Lite :: "codeunit list option \<Rightarrow> codeunit list option \<Rightarrow> string" where
  "handshakeJA3Lite getProtocol getCipherName =
     (let protocol = orUnknown getProtocol;
          cipher = orUnknown getCipherName
      in computeJA3Lite (Some protocol) (Some cipher) None)"

text \<open>
  The hash as the specification words it: 32-bit FNV-1a, offset basis 2166136261, prime
  16777619, XOR then multiply for every character, arithmetic modulo \<open>2 ^ 32\<close>.
\<close>

definition fnv1a_step_spec :: "nat \<Rightarrow> nat \<Rightarrow> nat" where
  "fnv1a_step_spec h c = ((h XOR c) * 16777619) mod 2 ^ 32"

definition fnv1a32_spec :: "nat list \<Rightarrow> nat" where
  "fnv1a32_spec cs = foldl fnv1a_step_spec 2166136261 cs"

text \<open>
  Reading a lowercase hexadecimal numeral: the value of a digit is its place among
  \<open>0123456789abcdef\<close>.
\<close>

definition hexDigitValue :: "char \<Rightarrow> nat" where
  "hexDigitValue ch = length (takeWhile (\<lambda>x. x \<noteq> ch) ''0123456789abcdef'')"

definition hexValue :: "string \<Rightarrow> nat" where
  "hexValue s = foldl (\<lambda>a ch. 16 * a + hexDigitValue ch) 0 s"

section \<open>Data model (src/core/types.ts)\<close>

text \<open>
  Optional fields are options.  A header value is a string or an array of strings.  A
  \<open>Date\<close> is its time value in milliseconds, or invalid (time value \<open>NaN\<close>).  Status
  codes, response times and clock readings are integers.
\<close>

datatype hval = HStr string | HArr "string list"

text \<open>
  A risk score is a JavaScript \<open>number\<close>: a finite value, one of the two infinities, or
  \<open>NaN\<close>.  The finite values are taken as reals (every double is one), and the two zeros
  are not told apart: the score of a classification starts at \<open>+0\<close> and
  \<open>Math.max(+0, -0)\<close> is \<open>+0\<close>.  The numbers other than \<open>NaN\<close> are linearly ordered.
\<close>

datatype extnum = NegInfinity | Finite real | PosInfinity

instantiation extnum :: linorder
begin

fun less_eq_extnum :: "extnum \<Rightarrow> extnum \<Rightarrow> bool" where
  "less_eq_extnum NegInfinity y = True"
| "less_eq_extnum (Finite x) NegInfinity = False"
| "less_eq_extnum (Finite x) (Finite y) = (x \<le> y)"
| "less_eq_extnum (Finite x) PosInfinity = True"
| "less_eq_extnum PosInfinity NegInfinity = False"
| "less_eq_extnum PosInfinity (Finite y) = False"
| "less_eq_extnum PosInfinity PosInfinity = True"

definition less_extnum :: "extnum \<Rightarrow> extnum \<Rightarrow> bool" where
  "less_extnum x y = (x \<le> y \<and> \<not> y \<le> x)"

instance
proof
  fix x y z :: extnum
  show "(x < y) = (x \<le> y \<and> \<not> y \<le> x)" by (rule less_extnum_def)
  show "x \<le> x" by (cases x) simp_all
  show "x \<le> y \<Longrightarrow> y \<le> z \<Longrightarrow> x \<le> z"
    by (cases x; cases y; cases z) simp_all
  show "x \<le> y \<Longrightarrow> y \<le> x \<Longrightarrow> x = y"
    by (cases x; cases y) simp_all
  show "x \<le> y \<or> y \<le> x"
    by (cases x; cases y) auto
qed

end

datatype jsnum = NaN | Num extnum

text \<open>
  \<open>Math.max\<close> and \<open>Math.min\<close> of two numbers give \<open>NaN\<close> as soon as one of them is
  \<open>NaN\<close>; the comparison \<open><=\<close> is false as soon as one side is \<open>NaN\<close>.
\<close>

fun mathMax :: "jsnum \<Rightarrow> jsnum \<Rightarrow> jsnum" where
  "mathMax (Num a) (Num b) = Num (max a b)"
| "mathMax NaN b = NaN"
| "mathMax a NaN = NaN"

fun mathMin :: "jsnum \<Rightarrow> jsnum \<Rightarrow> jsnum" where
  "mathMin (Num a) (Num b) = Num (min a b)"
| "mathMin NaN b = NaN"
| "mathMin a NaN = NaN"

fun jsLe :: "jsnum \<Rightarrow> jsnum \<Rightarrow> bool" where
  "jsLe (Num a) (Num b) = (a \<le> b)"
| "jsLe NaN b = False"
| "jsLe a NaN = False"

definition ofInt :: "int \<Rightarrow> jsnum" where
  "ofInt i = Num (Finite (of_int i))"

datatype jsdate = Instant int | InvalidDate

datatype scheme = Http | Https

datatype LogLevel = Debug | Info | Warn | Error

type_synonym logCall = "LogLevel \<times> string"

record TLSInfo =
  validationError :: "string option"
  version :: "string option"
  cipher :: "string option"
  cipherVersion :: "string option"
  validFrom :: "jsdate option"
  validTo :: "jsdate option"
  issuer :: "string option"
  subject :: "string option"
  altNames :: "string list"
  ja3Lite :: "string option"

record EndpointCheck =
  path :: string
  statusCodeE :: int
  exists :: bool
  notesE :: "string option"

record ProbeResult =
  hostname :: string
  ip :: string
  protocol :: scheme
  port :: nat
  statusCode :: int
  statusText :: string
  headers :: "string \<Rightarrow> hval option"
  contentLength :: int
  title :: "string option"
  redirectChain :: "string list"
  tls :: "TLSInfo option"
  endpoints :: "EndpointCheck list"
  responseTime :: int
  timestamp :: int

record ClassifiedResult = ProbeResult +
  categories :: "string list"
  riskScore :: jsnum
  notesC :: string

text \<open>
  The \<open>ClassificationHint\<close> that \<open>applyBuiltInRules\<close> returns; its score is the greatest
  of the integer literals of the rules that fired.
\<close>

record ClassificationHint =
  categoriesH :: "string list"
  riskScoreH :: int
  notesH :: string

text \<open>
  What a plugin's \<open>onClassify\<close> hands back is inspected at run time: \<open>rawCategories\<close> is
  \<open>None\<close> unless the \<open>categories\<close> property is an array of strings, \<open>rawRiskScore\<close> and
  \<open>rawNotes\<close> are \<open>None\<close> when the property is missing; a score that is present is any
  \<open>number\<close>, as the interface declares it.

  Whatever is thrown inside the \<open>try\<close> block reaches the \<open>catch\<close> handler, which builds a
  message from it: \<open>error.message\<close> for an instance of \<open>Error\<close>, \<open>String(error)\<close> for
  anything else, each put into a template literal.  A thrown value is modelled by the
  text this conversion gives, or \<open>None\<close> when the conversion itself throws (an \<open>Error\<close>
  whose message is a symbol or an object with a throwing \<open>toString\<close>; a thrown object
  without prototype).  Nothing catches what the handler throws.

  The call of the hook either throws, or returns a hint object, or something that is not
  an object (\<open>Returns None\<close>).
\<close>

datatype thrown = ErrorObject "string option" | OtherValue "string option"

record RawHint =
  rawCategories :: "string list option"
  rawRiskScore :: "jsnum option"
  rawNotes :: "string option"

datatype hookOutcome = Throws thrown | Returns "RawHint option"

record Plugin =
  name :: string
  pluginVersion :: string
  onClassify :: "(ProbeResult \<Rightarrow> hookOutcome) option"

text \<open>
  \<open>classify\<close> is an \<open>async\<close> function: what escapes from its body rejects the promise it
  returned, and no classified record is handed out.  The rejection names the plugin whose
  \<open>catch\<close> handler threw.
\<close>

datatype rejection = CatchHandlerThrew string

section \<open>Risk classifier (src/core/classifier.ts)\<close>

text \<open>
  Every built-in rule of \<open>applyBuiltInRules\<close> that fires executes the same three statements:
  \<open>categories.push(c)\<close> (some rules push none), \<open>riskScore = Math.max(riskScore, r)\<close> and
  \<open>notes.push(n)\<close>.  A \<open>firing\<close> records the \<open>c\<close>, \<open>r\<close> and \<open>n\<close> of one such execution;
  the rules are listed in source order, each as the firings it makes.
\<close>

type_synonym firing = "string option \<times> int \<times> string"

definition hostnamePatterns :: "(string list \<times> string \<times> int) list" where
  "hostnamePatterns =
     [([''staging'', ''stg'', ''stage'', ''dev'', ''development''], ''staging'', 60),
      ([''api''], ''api'', 40),
      ([''admin'', ''administrator'', ''management''], ''admin-panel'', 85),
      ([''test'', ''testing'', ''qa''], ''testing'', 55),
      ([''mail'', ''smtp'', ''imap'', ''pop''], ''mail'', 30),
      ([''vpn'', ''remote''], ''remote-access'', 50),
      ([''jenkins'', ''gitlab'', ''ci'', ''cd''], ''ci-cd'', 70),
      ([''static'', ''cdn'', ''assets''], ''static'', 10)]"

definition hostnameRules :: "ProbeResult \<Rightarrow> firing list" where
  "hostnameRules result =
     concat (map (\<lambda>(pattern, category, risk).
                    if regexTest pattern (hostname result)
                    then [(Some category, risk, category @ '' detected in hostname'')]
                    else [])
                 hostnamePatterns)"

definition statusRules :: "ProbeResult \<Rightarrow> string list \<Rightarrow> firing list" where
  "statusRules result cats =
     (if statusCode result = 200 \<and> ''admin-panel'' \<in> set cats
        then [(None, 85, ''Admin panel accessible'')]
      else if statusCode result = 401 \<or> statusCode result = 403
        then [(None, 40, ''Authentication required'')]
      else if statusCode result \<ge> 500
        then [(None, 30, ''Server error detected'')]
      else [])"

text \<open>
  The four \<open>outdatedPatterns\<close>, each as its literals: \<open>apache/1.\<close>; \<open>apache/2.\<close> and a
  digit 0-2; \<open>nginx/1.\<close>, a digit and a dot; \<open>iis/\<close>, 6 or 7 and a dot.
\<close>

definition outdatedPatterns :: "string list list" where
  "outdatedPatterns =
     [[''apache/1.''],
      map (\<lambda>d. ''apache/2.'' @ [d]) ''012'',
      map (\<lambda>d. ''nginx/1.'' @ [d] @ ''.'') ''0123456789'',
      map (\<lambda>d. ''iis/'' @ [d] @ ''.'') ''67'']"

definition serverRules :: "ProbeResult \<Rightarrow> firing list" where
  "serverRules result =
     (let rawServer = headers result ''server'';
          serverHeader = (case rawServer of Some (HStr v) \<Rightarrow> toLowerCase v | _ \<Rightarrow> [])
      in if list_ex (\<lambda>p. regexTest p serverHeader) outdatedPatterns
         then [(Some ''outdated-server'', 60, ''Outdated server software detected'')]
         else [])"

definition corsRules :: "ProbeResult \<Rightarrow> firing list" where
  "corsRules result =
     (let allowOrigin = headers result ''access-control-allow-origin'';
          allowCred = headers result ''access-control-allow-credentials''
      in if allowOrigin = Some (HStr ''*'') \<and> allowCred = Some (HStr ''true'')
         then [(Some ''cors-unsafe'', 75, ''Unsafe CORS policy'')]
         else [])"

definition securityHeaders :: "string list" where
  "securityHeaders =
     [''strict-transport-security'', ''x-frame-options'', ''x-content-type-options'',
      ''content-security-policy'']"

text \<open>\<open>!headers[h]\<close>: the header is absent or the empty string (an array is truthy).\<close>

definition headerFalsy :: "hval option \<Rightarrow> bool" where
  "headerFalsy v = (case v of None \<Rightarrow> True | Some (HStr x) \<Rightarrow> x = [] | Some (HArr xs) \<Rightarrow> False)"

definition missingHeaderRules :: "ProbeResult \<Rightarrow> firing list" where
  "missingHeaderRules result =
     (let missing = filter (\<lambda>h. headerFalsy (headers result h)) securityHeaders
      in if length missing \<ge> 3
         then [(Some ''weak-headers'', 45,
                ''Missing '' @ numToString (length missing) @ '' security headers'')]
         else [])"

definition sensitiveRules :: "ProbeResult \<Rightarrow> firing list" where
  "sensitiveRules result =
     (let sensitive =
            filter (\<lambda>e. exists e \<and> (includesStr (path e) ''admin'' \<or> includesStr (path e) ''.git''))
                   (endpoints result)
      in if length sensitive > 0
         then [(Some ''exposed-endpoints'', 80,
                ''Sensitive endpoints exposed: '' @ join (map path sensitive) '', '')]
         else [])"

definition hasListingNote :: "EndpointCheck \<Rightarrow> bool" where
  "hasListingNote e =
     (case notesE e of None \<Rightarrow> False
      | Some v \<Rightarrow> if v = [] then False
                  else (let n = toLowerCase v
                        in includesStr n ''directory listing'' \<or> includesStr n ''index of''))"

text \<open>
  The note of the next rule holds three non-ASCII characters, given here as the bytes of
  the source file.
\<close>

definition directoryListingRules :: "ProbeResult \<Rightarrow> firing list" where
  "directoryListingRules result =
     (case find hasListingNote (endpoints result) of
        Some directoryListing \<Rightarrow>
          [(Some ''directory-listing'', 80,
            ''Directory listing enabled '' @
            [CHR 0xC3, CHR 0xA2, CHR 0xE2, CHR 0x82, CHR 0xAC, CHR 0xE2, CHR 0x80, CHR 0x9D] @
            '' sensitive files may be exposed'')]
      | None \<Rightarrow> [])"

definition weakCiphers :: "string list" where
  "weakCiphers = [''RC4'', ''DES'', ''MD5'', ''3DES'']"

text \<open>
  The TLS block reads the clock once (\<open>now\<close>).  Comparisons with the time value of an
  invalid date are false.
\<close>

definition tlsRules :: "int \<Rightarrow> ProbeResult \<Rightarrow> firing list" where
  "tlsRules now result =
     (case tls result of None \<Rightarrow> []
      | Some t \<Rightarrow>
          (case validTo t of
             Some (Instant vt) \<Rightarrow>
               (if vt < now
                then [(Some ''expired-certificate'', 65, ''TLS certificate expired'')] else []) @
               (let oneWeek = 7 * 24 * 60 * 60 * 1000
                in if vt - now < oneWeek
                   then [(Some ''expiring-certificate'', 40, ''TLS certificate expiring soon'')]
                   else [])
           | _ \<Rightarrow> []) @
          (case cipher t of
             Some c \<Rightarrow>
               if c \<noteq> [] \<and> list_ex (\<lambda>w. includesStr c w) weakCiphers
               then [(Some ''weak-cipher'', 70, ''Weak TLS cipher detected'')] else []
           | None \<Rightarrow> []))"

definition noTlsRules :: "ProbeResult \<Rightarrow> firing list" where
  "noTlsRules result =
     (if tls result = None \<and> protocol result = Http
      then [(Some ''no-tls'', 50, ''No TLS encryption'')] else [])"

definition slowRules :: "ProbeResult \<Rightarrow> firing list" where
  "slowRules result =
     (if responseTime result > 5000
      then [(Some ''slow-response'', 20, ''Slow response time'')] else [])"

definition firedCategories :: "firing list \<Rightarrow> string list" where
  "firedCategories fs = concat (map (\<lambda>(c, r, n). case c of None \<Rightarrow> [] | Some x \<Rightarrow> [x]) fs)"

text \<open>
  The firings of one run of \<open>applyBuiltInRules\<close>, in execution order.  The status rule
  reads the categories pushed so far, which are those of the host-name rules.
\<close>

definition builtInFirings :: "int \<Rightarrow> ProbeResult \<Rightarrow> firing list" where
  "builtInFirings now result =
     (let hs = hostnameRules result
      in hs @ statusRules result (firedCategories hs) @ serverRules result @ corsRules result @
         missingHeaderRules result @ sensitiveRules result @ directoryListingRules result @
         tlsRules now result @ noTlsRules result @ slowRules result)"

text \<open>The three local variables of \<open>applyBuiltInRules\<close>.\<close>

record ruleState =
  categoriesS :: "string list"
  riskScoreS :: int
  notesS :: "string list"

definition applyFiring :: "ruleState \<Rightarrow> firing \<Rightarrow> ruleState" where
  "applyFiring st f =
     (case f of (c, r, n) \<Rightarrow>
        \<lparr> categoriesS = (case c of None \<Rightarrow> categoriesS st | Some x \<Rightarrow> categoriesS st @ [x]),
          riskScoreS = max (riskScoreS st) r,
          notesS = notesS st @ [n] \<rparr>)"

definition applyBuiltInRules :: "int \<Rightarrow> ProbeResult \<Rightarrow> ClassificationHint" where
  "applyBuiltInRules now result =
     (let st = foldl applyFiring \<lparr> categoriesS = [], riskScoreS = 0, notesS = [] \<rparr>
                     (builtInFirings now result)
      in \<lparr> categoriesH = (if categoriesS st \<noteq> [] then categoriesS st else [''standard'']),
           riskScoreH = riskScoreS st,
           notesH = join (notesS st) ''; '' \<rparr>)"

text \<open>
  The three local variables of the loop body of \<open>classify\<close>; here the score is whatever
  number the hooks make it.
\<close>

record classifyState =
  categoriesV :: "string list"
  riskScoreV :: jsnum
  notesV :: "string list"

text \<open>The message the \<open>catch\<close> handler builds, when it can.\<close>

fun errorMessageOf :: "thrown \<Rightarrow> string option" where
  "errorMessageOf (ErrorObject message) = message"
| "errorMessageOf (OtherValue converted) = converted"

text \<open>
  One turn of the plugin loop of \<open>classify\<close>.  A plugin without \<open>onClassify\<close> is skipped; a
  throw is caught and logged, unless the handler throws while it builds the message; a
  hint counts only when it is an object whose categories are an array of strings, and then
  contributes them, \<open>riskScore ?? 0\<close> and a non-empty note.
\<close>

definition applyPlugin ::
  "ProbeResult \<Rightarrow> classifyState \<times> logCall list \<Rightarrow> Plugin
     \<Rightarrow> rejection + classifyState \<times> logCall list" where
  "applyPlugin result acc plugin =
     (case acc of (st, logged) \<Rightarrow>
        (case onClassify plugin of None \<Rightarrow> Inr (st, logged)
         | Some f \<Rightarrow>
             (case f result of
                Throws error \<Rightarrow>
                  (case errorMessageOf error of
                     None \<Rightarrow> Inl (CatchHandlerThrew (name plugin))
                   | Some errorMessage \<Rightarrow>
                       Inr (st, logged @ [(Error, ''Plugin '' @ name plugin @
                                            '' classification failed: '' @ errorMessage)]))
              | Returns rawHint \<Rightarrow>
                  (case rawHint of None \<Rightarrow> Inr (st, logged)
                   | Some hint \<Rightarrow>
                       (case rawCategories hint of None \<Rightarrow> Inr (st, logged)
                        | Some cs \<Rightarrow>
                            Inr (\<lparr> categoriesV = categoriesV st @ cs,
                                   riskScoreV = mathMax (riskScoreV st)
                                      (case rawRiskScore hint of None \<Rightarrow> ofInt 0 | Some v \<Rightarrow> v),
                                   notesV = (case rawNotes hint of None \<Rightarrow> notesV st
                                             | Some n \<Rightarrow> if n \<noteq> [] then notesV st @ [n]
                                                         else notesV st) \<rparr>,
                                 logged))))))"

text \<open>The plugin loop: it ends at the first turn that throws.\<close>

fun pluginLoop ::
  "ProbeResult \<Rightarrow> classifyState \<times> logCall list \<Rightarrow> Plugin list
     \<Rightarrow> rejection + classifyState \<times> logCall list" where
  "pluginLoop result acc [] = Inr acc"
| "pluginLoop result acc (plugin # rest) =
     (case applyPlugin result acc plugin of
        Inl e \<Rightarrow> Inl e
      | Inr acc' \<Rightarrow> pluginLoop result acc' rest)"

text \<open>The body of the outer loop of \<open>classify\<close>, for one probe result.\<close>

definition classifyRecord ::
  "int \<Rightarrow> ProbeResult \<Rightarrow> Plugin list \<Rightarrow> rejection + ClassifiedResult \<times> logCall list" where
  "classifyRecord now result plugins =
     (let builtIn = applyBuiltInRules now result;
          st0 = \<lparr> categoriesV = [] @ categoriesH builtIn,
                  riskScoreV = mathMax (ofInt 0) (ofInt (riskScoreH builtIn)),
                  notesV = (if notesH builtIn \<noteq> [] then [notesH builtIn] else []) \<rparr>
      in case pluginLoop result (st0, []) plugins of
           Inl e \<Rightarrow> Inl e
         | Inr (st, logged) \<Rightarrow>
             (let dedupedCategories = newSet (categoriesV st)
              in Inr (ProbeResult.extend result
                        \<lparr> categories = dedupedCategories,
                          riskScore = mathMin (riskScoreV st) (ofInt 100),
                          notesC = (if notesV st \<noteq> [] then join (notesV st) ''; ''
                                   else ''No significant findings'') \<rparr>,
                      logged)))"

text \<open>
  \<open>classify\<close>: one classified result per probe result, in order, or the rejection that
  ended the loop.  \<open>clock k\<close> is what \<open>Date.now()\<close> returns while the \<open>k\<close>-th result is
  processed.  The second component collects the calls to the logger of a run that
  returns.
\<close>

fun classifyFrom ::
  "nat \<Rightarrow> (nat \<Rightarrow> int) \<Rightarrow> ProbeResult list \<Rightarrow> Plugin list
     \<Rightarrow> rejection + ClassifiedResult list \<times> logCall list" where
  "classifyFrom k clock [] plugins = Inr ([], [])"
| "classifyFrom k clock (result # rest) plugins =
     (case classifyRecord (clock k) result plugins of
        Inl e \<Rightarrow> Inl e
      | Inr (c, logged) \<Rightarrow>
          (case classifyFrom (Suc k) clock rest plugins of
             Inl e \<Rightarrow> Inl e
           | Inr (cs, later) \<Rightarrow> Inr (c # cs, logged @ later)))"


text \<open>
  What enters a classification.  A hint is accepted when the hook returned (did not throw)
  an object whose categories are an array of strings; it contributes its categories, its
  score (0 when it has none) and its note (when it has one that is not empty).  The
  built-in rules contribute the risk and the category of every firing, and one note made
  of the notes of the firings.
\<close>

definition acceptedHint :: "ProbeResult \<Rightarrow> Plugin \<Rightarrow> (string list \<times> jsnum \<times> string list) option" where
  "acceptedHint result plugin =
     (case onClassify plugin of None \<Rightarrow> None
      | Some f \<Rightarrow>
          (case f result of Throws error \<Rightarrow> None
           | Returns None \<Rightarrow> None
           | Returns (Some hint) \<Rightarrow>
               (case rawCategories hint of None \<Rightarrow> None
                | Some cs \<Rightarrow>
                    Some (cs,
                          (case rawRiskScore hint of None \<Rightarrow> ofInt 0 | Some v \<Rightarrow> v),
                          (case rawNotes hint of None \<Rightarrow> []
                           | Some n \<Rightarrow> if n \<noteq> [] then [n] else [])))))"

definition builtInScores :: "int \<Rightarrow> ProbeResult \<Rightarrow> int list" where
  "builtInScores now result = map (\<lambda>(c, r, n). r) (builtInFirings now result)"

definition hookScores :: "ProbeResult \<Rightarrow> Plugin list \<Rightarrow> jsnum list" where
  "hookScores result plugins =
     concat (map (\<lambda>p. case acceptedHint result p of None \<Rightarrow> [] | Some (cs, score, ns) \<Rightarrow> [score])
                 plugins)"

definition contributedScores :: "int \<Rightarrow> ProbeResult \<Rightarrow> Plugin list \<Rightarrow> jsnum list" where
  "contributedScores now result plugins =
     map ofInt (builtInScores now result) @ hookScores result plugins"

definition builtInCategories :: "int \<Rightarrow> ProbeResult \<Rightarrow> string list" where
  "builtInCategories now result = firedCategories (builtInFirings now result)"

definition hookCategories :: "ProbeResult \<Rightarrow> Plugin list \<Rightarrow> string list" where
  "hookCategories result plugins =
     concat (map (\<lambda>p. case acceptedHint result p of None \<Rightarrow> [] | Some (cs, score, ns) \<Rightarrow> cs)
                 plugins)"

definition builtInNotes :: "int \<Rightarrow> ProbeResult \<Rightarrow> string list" where
  "builtInNotes now result =
     (let n = join (map (\<lambda>(c, r, n). n) (builtInFirings now result)) ''; ''
      in if n \<noteq> [] then [n] else [])"

definition hookNotes :: "ProbeResult \<Rightarrow> Plugin list \<Rightarrow> string list" where
  "hookNotes result plugins =
     concat (map (\<lambda>p. case acceptedHint result p of None \<Rightarrow> [] | Some (cs, score, ns) \<Rightarrow> ns)
                 plugins)"

definition clamp :: "extnum \<Rightarrow> extnum" where
  "clamp x = max (Finite 0) (min (Finite 100) x)"

text \<open>
  A hook throws on a record; the thrown value is one the \<open>catch\<close> handler cannot turn
  into a message; the line the handler logs otherwise.
\<close>

definition throwsOn :: "Plugin \<Rightarrow> ProbeResult \<Rightarrow> bool" where
  "throwsOn plugin result =
     (case onClassify plugin of None \<Rightarrow> False
      | Some f \<Rightarrow> (case f result of Throws error \<Rightarrow> True | Returns h \<Rightarrow> False))"

definition handlerThrows :: "Plugin \<Rightarrow> ProbeResult \<Rightarrow> bool" where
  "handlerThrows plugin result =
     (case onClassify plugin of None \<Rightarrow> False
      | Some f \<Rightarrow> (case f result of Throws error \<Rightarrow> errorMessageOf error = None
                   | Returns h \<Rightarrow> False))"

definition failureLines :: "ProbeResult \<Rightarrow> Plugin list \<Rightarrow> logCall list" where
  "failureLines result plugins =
     concat (map (\<lambda>p. case onClassify p of None \<Rightarrow> []
                       | Some f \<Rightarrow>
                           (case f result of
                              Throws error \<Rightarrow>
                                (case errorMessageOf error of None \<Rightarrow> []
                                 | Some m \<Rightarrow> [(Error, ''Plugin '' @ name p @
                                                      '' classification failed: '' @ m)])
                            | Returns h \<Rightarrow> []))
                 plugins)"

text \<open>
  The record that the loop body of \<open>classify\<close> builds from these contributions: the
  categories of the built-in hint and of the accepted hints without repetitions, the
  \<open>Math.max\<close> of zero and every contributed score cut by \<open>Math.min\<close> at 100, and the
  notes joined.
\<close>

definition classified :: "int \<Rightarrow> ProbeResult \<Rightarrow> Plugin list \<Rightarrow> ClassifiedResult" where
  "classified now result plugins =
     ProbeResult.extend result
       \<lparr> categories = newSet (categoriesH (applyBuiltInRules now result) @ hookCategories result plugins),
         riskScore = mathMin (foldl mathMax (ofInt 0) (contributedScores now result plugins)) (ofInt 100),
         notesC = (if builtInNotes now result @ hookNotes result plugins \<noteq> []
                   then join (builtInNotes now result @ hookNotes result plugins) ''; ''
                   else ''No significant findings'') \<rparr>"

section \<open>Example inputs for the classifier\<close>

text \<open>
  A host that triggers no built-in rule (all four security headers present, HTTPS, fast),
  the same host under a name that matches the \<open>api\<close> pattern, a hook that returns one
  category with a score above 100, a hook that throws an \<open>Error\<close>, a hook that returns
  the score \<open>NaN\<close>, and a hook that throws an object without prototype
  (\<open>throw Object.create(null)\<close>), which \<open>String\<close> cannot convert.
\<close>

definition secureHeaders :: "string \<Rightarrow> hval option" where
  "secureHeaders =
     map_of [(''strict-transport-security'', HStr ''max-age=31536000''),
             (''x-frame-options'', HStr ''DENY''),
             (''x-content-type-options'', HStr ''nosniff''),
             (''content-security-policy'', HStr ''default-src'')]"

definition quietRecord :: ProbeResult where
  "quietRecord =
     \<lparr> hostname = ''normal-site.example.com'', ip = ''192.168.1.1'', protocol = Https,
       port = 443, statusCode = 200, statusText = ''200'', headers = secureHeaders,
       contentLength = 1024, title = None, redirectChain = [], tls = None, endpoints = [],
       responseTime = 100, timestamp = 0 \<rparr>"

definition apiRecord :: ProbeResult where
  "apiRecord = quietRecord \<lparr> hostname := ''api.example.com'' \<rparr>"

definition wordpressPlugin :: Plugin where
  "wordpressPlugin =
     \<lparr> name = ''wordpress-plugin'', pluginVersion = ''1.0.0'',
       onClassify = Some (\<lambda>r. Returns (Some \<lparr> rawCategories = Some [''wordpress''],
                                                rawRiskScore = Some (ofInt 150),
                                                rawNotes = Some ''WordPress installation detected'' \<rparr>)) \<rparr>"

definition faultyPlugin :: Plugin where
  "faultyPlugin =
     \<lparr> name = ''faulty-plugin'', pluginVersion = ''1.0.0'',
       onClassify = Some (\<lambda>r. Throws (ErrorObject (Some ''Plugin error''))) \<rparr>"


definition nanPlugin :: Plugin where
  "nanPlugin =
     \<lparr> name = ''nan-plugin'', pluginVersion = ''1.0.0'',
       onClassify = Some (\<lambda>r. Returns (Some \<lparr> rawCategories = Some [],
                                                rawRiskScore = Some NaN,
                                                rawNotes = Some [] \<rparr>)) \<rparr>"

definition opaquePlugin :: Plugin where
  "opaquePlugin =
     \<lparr> name = ''opaque-plugin'', pluginVersion = ''1.0.0'',
       onClassify = Some (\<lambda>r. Throws (OtherValue None)) \<rparr>"
section \<open>TTL cache (src/core/cache.ts)\<close>

text \<open>
  \<open>CacheManager\<close> wraps the \<open>LRUCache\<close> of the \<open>lru-cache\<close> package, which is not part of
  the repository.  The package is modelled here as far as the options passed by the
  constructor (\<open>max\<close>, \<open>ttl\<close>, \<open>updateAgeOnGet: true\<close>, \<open>updateAgeOnHas: false\<close>) make
  it behave: items are kept from least to most recently used; every item remembers the
  instant \<open>start\<close> at which its age began; an item is stale when the cache has a \<open>ttl\<close>,
  the item has a \<open>start\<close>, and more than \<open>ttl\<close> has passed since; \<open>get\<close> of a stale item
  deletes it and returns nothing, \<open>get\<close> of a live item makes it the most recent and restarts
  its age; \<open>set\<close> gives the item the cache's own \<open>ttl\<close> (no per-call \<open>ttl\<close> is ever
  passed) and, when the cache is full and the key is new, evicts the least recently used
  item first.  The clock of the package and \<open>Date.now()\<close> are read at the same instants
  and are taken to advance together: every operation gets the instant \<open>now\<close>.
\<close>

record 'v CacheEntry =
  valueE :: 'v
  expiresAt :: int

type_synonym 'v lruItem = "string \<times> 'v CacheEntry \<times> int"

record 'v LRUCache =
  maxL :: nat
  ttlL :: int
  items :: "'v lruItem list"

definition isStale :: "int \<Rightarrow> int \<Rightarrow> int \<Rightarrow> bool" where
  "isStale ttl now start = (ttl \<noteq> 0 \<and> start \<noteq> 0 \<and> now - start > ttl)"

definition itemStart :: "'v LRUCache \<Rightarrow> int \<Rightarrow> int" where
  "itemStart c now = (if ttlL c \<noteq> 0 then now else 0)"

definition lruDelete :: "'v LRUCache \<Rightarrow> string \<Rightarrow> 'v LRUCache" where
  "lruDelete c k = c \<lparr> items := filter (\<lambda>i. fst i \<noteq> k) (items c) \<rparr>"

definition lruGet :: "int \<Rightarrow> 'v LRUCache \<Rightarrow> string \<Rightarrow> 'v CacheEntry option \<times> 'v LRUCache" where
  "lruGet now c k =
     (case find (\<lambda>i. fst i = k) (items c) of
        None \<Rightarrow> (None, c)
      | Some (k', entry, start) \<Rightarrow>
          if isStale (ttlL c) now start then (None, lruDelete c k)
          else (Some entry,
                c \<lparr> items := filter (\<lambda>i. fst i \<noteq> k) (items c) @ [(k, entry, itemStart c now)] \<rparr>))"

definition lruSet :: "int \<Rightarrow> 'v LRUCache \<Rightarrow> string \<Rightarrow> 'v CacheEntry \<Rightarrow> 'v LRUCache" where
  "lruSet now c k entry =
     (if list_ex (\<lambda>i. fst i = k) (items c)
      then c \<lparr> items := filter (\<lambda>i. fst i \<noteq> k) (items c) @ [(k, entry, itemStart c now)] \<rparr>
      else c \<lparr> items := (if length (items c) = maxL c then tl (items c) else items c)
                          @ [(k, entry, itemStart c now)] \<rparr>)"

text \<open>The class \<open>CacheManager\<close>: its two fields, constructor and methods.\<close>

record 'v CacheManager =
  cache :: "'v LRUCache"
  defaultTTL :: int

definition newCacheManager :: "nat \<Rightarrow> int \<Rightarrow> 'v CacheManager" where
  "newCacheManager maxSize ttl =
     \<lparr> cache = \<lparr> maxL = maxSize, ttlL = ttl, items = [] \<rparr>, defaultTTL = ttl \<rparr>"

definition cacheGet :: "int \<Rightarrow> 'v CacheManager \<Rightarrow> string \<Rightarrow> 'v option \<times> 'v CacheManager" where
  "cacheGet now m k =
     (case lruGet now (cache m) k of
        (None, c) \<Rightarrow> (None, m \<lparr> cache := c \<rparr>)
      | (Some entry, c) \<Rightarrow>
          if now > expiresAt entry then (None, m \<lparr> cache := lruDelete c k \<rparr>)
          else (Some (valueE entry), m \<lparr> cache := c \<rparr>))"

definition cacheSet :: "int \<Rightarrow> 'v CacheManager \<Rightarrow> string \<Rightarrow> 'v \<Rightarrow> int option \<Rightarrow> 'v CacheManager" where
  "cacheSet now m k v ttl =
     (let expires = now + (case ttl of None \<Rightarrow> defaultTTL m | Some t \<Rightarrow> t);
          entry = \<lparr> valueE = v, expiresAt = expires \<rparr>
      in m \<lparr> cache := lruSet now (cache m) k entry \<rparr>)"

definition cacheHas :: "int \<Rightarrow> 'v CacheManager \<Rightarrow> string \<Rightarrow> bool \<times> 'v CacheManager" where
  "cacheHas now m k =
     (case lruGet now (cache m) k of
        (None, c) \<Rightarrow> (False, m \<lparr> cache := c \<rparr>)
      | (Some entry, c) \<Rightarrow>
          if now > expiresAt entry then (False, m \<lparr> cache := lruDelete c k \<rparr>)
          else (True, m \<lparr> cache := c \<rparr>))"

definition cacheDelete :: "'v CacheManager \<Rightarrow> string \<Rightarrow> 'v CacheManager" where
  "cacheDelete m k = m \<lparr> cache := lruDelete (cache m) k \<rparr>"

definition cacheClear :: "'v CacheManager \<Rightarrow> 'v CacheManager" where
  "cacheClear m = m \<lparr> cache := (cache m) \<lparr> items := [] \<rparr> \<rparr>"

text \<open>
  \<open>getOrSet\<close> reads the clock twice: in \<open>get\<close> (\<open>tGet\<close>) and, after the factory has
  settled, in \<open>set\<close> (\<open>tSet\<close>).  A factory yields its value together with the list of the
  outside calls it made; on a hit the factory is not invoked and no call is made.
\<close>

definition getOrSet ::
  "int \<Rightarrow> int \<Rightarrow> 'v CacheManager \<Rightarrow> string \<Rightarrow> (unit \<Rightarrow> 'v \<times> 'e list) \<Rightarrow> int option
     \<Rightarrow> ('v \<times> 'e list) \<times> 'v CacheManager" where
  "getOrSet tGet tSet m k factory ttl =
     (case cacheGet tGet m k of
        (Some cached, m') \<Rightarrow> ((cached, []), m')
      | (None, m') \<Rightarrow>
          (let (v, calls) = factory ()
           in ((v, calls), cacheSet tSet m' k v ttl)))"

definition cachedKeys :: "'v CacheManager \<Rightarrow> string set" where
  "cachedKeys m = fst ` set (items (cache m))"

section \<open>Domain resolver (src/core/enumerator.ts)\<close>

datatype source = CrtSh | Dns | Wordlist

record SubdomainResult =
  hostnameS :: string
  source :: source
  resolvedIPs :: "string list"
  timestampS :: int

text \<open>
  A resolver answers an A query (\<open>resolve4\<close>) and an AAAA query (\<open>resolve6\<close>) with the
  addresses, or rejects with an error code; it answers a name the same way whenever it is
  asked.  A \<open>dnsQuery\<close> records one query sent.
\<close>

datatype rrtype = QueryA | QueryAAAA

type_synonym dnsQuery = "rrtype \<times> string"

record Resolver =
  resolve4 :: "string \<Rightarrow> string + string list"
  resolve6 :: "string \<Rightarrow> string + string list"

text \<open>The factory that \<open>resolveDNS\<close> hands to \<open>getOrSet\<close>.\<close>

definition resolveFactory :: "Resolver \<Rightarrow> string \<Rightarrow> string list \<times> dnsQuery list" where
  "resolveFactory resolver host =
     (case resolve4 resolver host of
        Inr addresses \<Rightarrow> (addresses, [(QueryA, host)])
      | Inl err \<Rightarrow>
          (case resolve6 resolver host of
             Inr addresses \<Rightarrow> (addresses, [(QueryA, host), (QueryAAAA, host)])
           | Inl err' \<Rightarrow> ([], [(QueryA, host), (QueryAAAA, host)])))"

definition resolveDNS ::
  "Resolver \<Rightarrow> int \<Rightarrow> int \<Rightarrow> string list CacheManager \<Rightarrow> string
     \<Rightarrow> (string list \<times> dnsQuery list) \<times> string list CacheManager" where
  "resolveDNS resolver tGet tSet dnsCache host =
     getOrSet tGet tSet dnsCache (''dns:'' @ host)
       (\<lambda>u. resolveFactory resolver host) (Some 3600000)"

text \<open>
  \<open>verifyDNS\<close> hands one task per candidate to \<open>pLimit(concurrency)\<close> and awaits them
  all.  The limiter of the \<open>p-limit\<close> package is not part of the repository; it is
  modelled from its documented behaviour: it throws a \<open>TypeError\<close> unless the limit is an
  integer from 1 up, it starts the tasks in the order they were handed in, and it keeps at
  most \<open>concurrency\<close> of them running.

  A running task is suspended at each \<open>await\<close>, and the tasks in flight take turns in an
  order the program does not decide.  A task goes through these phases:

  \<^item> \<open>Queued\<close>: not started.  Its start runs \<open>getOrSet\<close> up to the first \<open>await\<close>: it reads
    the cache and, on a miss, calls the factory, which sends the A query.
  \<^item> \<open>AwaitA\<close>: waiting for \<open>resolve4\<close>.  Its answer is the value of the factory; its
    failure makes the factory send the AAAA query.
  \<^item> \<open>AwaitAAAA\<close>: waiting for \<open>resolve6\<close>.  Its answer is the value of the factory; its
    failure is caught and the value is the empty array.
  \<^item> \<open>ToStore value\<close>: the factory has settled; \<open>getOrSet\<close> goes on to \<open>set\<close>.
  \<^item> \<open>Resolved ips\<close>: \<open>resolveDNS\<close> has settled; the task goes on to push the candidate,
    with these addresses, when there is at least one.
  \<^item> \<open>Finished\<close>.

  An event \<open>(k, now)\<close> lets task \<open>k\<close> take its next step while the clock reads \<open>now\<close>; it
  changes nothing when the task is finished, or queued and not to be started yet.  A
  schedule is a list of events.  Every order in which the program can run the tasks is a
  schedule (the schedules also include runs that the limiter would not produce, such as
  leaving a free slot unused for a while).  Every query is logged with the number of the
  task that sent it.
\<close>

datatype phase = Queued | AwaitA | AwaitAAAA | ToStore "string list" | Resolved "string list"
  | Finished

type_synonym taskQuery = "nat \<times> rrtype \<times> string"

record verifyState =
  phasesV :: "phase list"
  dnsCacheV :: "string list CacheManager"
  verifiedV :: "SubdomainResult list"
  queriesV :: "taskQuery list"

definition inFlight :: "phase \<Rightarrow> bool" where
  "inFlight p = (p \<noteq> Queued \<and> p \<noteq> Finished)"

definition startable :: "nat \<Rightarrow> phase list \<Rightarrow> nat \<Rightarrow> bool" where
  "startable concurrency ps k =
     (list_all (\<lambda>p. p \<noteq> Queued) (take k ps) \<and> length (filter inFlight ps) < concurrency)"

definition taskStep ::
  "nat \<Rightarrow> Resolver \<Rightarrow> SubdomainResult list \<Rightarrow> verifyState \<Rightarrow> nat \<times> int \<Rightarrow> verifyState" where
  "taskStep concurrency resolver candidates s event =
     (case event of (k, now) \<Rightarrow>
        if k < length candidates then
          (let candidate = candidates ! k;
               host = hostnameS candidate;
               key = ''dns:'' @ host
           in case phasesV s ! k of
                Queued \<Rightarrow>
                  if startable concurrency (phasesV s) k then
                    (case cacheGet now (dnsCacheV s) key of
                       (Some cached, dnsCache') \<Rightarrow>
                         s \<lparr> phasesV := (phasesV s)[k := Resolved cached], dnsCacheV := dnsCache' \<rparr>
                     | (None, dnsCache') \<Rightarrow>
                         s \<lparr> phasesV := (phasesV s)[k := AwaitA], dnsCacheV := dnsCache',
                             queriesV := queriesV s @ [(k, QueryA, host)] \<rparr>)
                  else s
              | AwaitA \<Rightarrow>
                  (case resolve4 resolver host of
                     Inr addresses \<Rightarrow> s \<lparr> phasesV := (phasesV s)[k := ToStore addresses] \<rparr>
                   | Inl err \<Rightarrow>
                       s \<lparr> phasesV := (phasesV s)[k := AwaitAAAA],
                           queriesV := queriesV s @ [(k, QueryAAAA, host)] \<rparr>)
              | AwaitAAAA \<Rightarrow>
                  (case resolve6 resolver host of
                     Inr addresses \<Rightarrow> s \<lparr> phasesV := (phasesV s)[k := ToStore addresses] \<rparr>
                   | Inl err \<Rightarrow> s \<lparr> phasesV := (phasesV s)[k := ToStore []] \<rparr>)
              | ToStore v \<Rightarrow>
                  s \<lparr> phasesV := (phasesV s)[k := Resolved v],
                      dnsCacheV := cacheSet now (dnsCacheV s) key v (Some 3600000) \<rparr>
              | Resolved ips \<Rightarrow>
                  s \<lparr> phasesV := (phasesV s)[k := Finished],
                      verifiedV := (if length ips > 0
                                    then verifiedV s @ [candidate \<lparr> resolvedIPs := ips \<rparr>]
                                    else verifiedV s) \<rparr>
              | Finished \<Rightarrow> s)
        else s)"

definition verifyInit :: "string list CacheManager \<Rightarrow> SubdomainResult list \<Rightarrow> verifyState" where
  "verifyInit dnsCache candidates =
     \<lparr> phasesV = replicate (length candidates) Queued, dnsCacheV = dnsCache,
       verifiedV = [], queriesV = [] \<rparr>"

definition verifyRun ::
  "nat \<Rightarrow> Resolver \<Rightarrow> string list CacheManager \<Rightarrow> SubdomainResult list \<Rightarrow> (nat \<times> int) list
     \<Rightarrow> verifyState" where
  "verifyRun concurrency resolver dnsCache candidates schedule =
     foldl (taskStep concurrency resolver candidates) (verifyInit dnsCache candidates) schedule"




text \<open>
  Vocabulary for the properties.  \<open>lookupAnswer\<close> is the one record set that resolving a
  name yields: the A records when the A lookup succeeds, else the AAAA records when that
  lookup succeeds, else none.  \<open>taskQueries k\<close> picks the queries of task \<open>k\<close> from a log.
  \<open>answersCached\<close> says that every value cached under \<open>dns:\<close> and a name is the answer
  for that name.  \<open>inTurn\<close> is the schedule that runs the tasks one after the other, five
  events each.
\<close>

definition lookupAnswer :: "Resolver \<Rightarrow> string \<Rightarrow> string list" where
  "lookupAnswer resolver host =
     (case resolve4 resolver host of
        Inr a \<Rightarrow> a
      | Inl e \<Rightarrow> (case resolve6 resolver host of Inr b \<Rightarrow> b | Inl e' \<Rightarrow> []))"


definition answersCached :: "Resolver \<Rightarrow> string list CacheManager \<Rightarrow> bool" where
  "answersCached resolver m =
     list_all (\<lambda>i. take 4 (fst i) = ''dns:'' \<longrightarrow>
                    valueE (fst (snd i)) = lookupAnswer resolver (drop 4 (fst i)))
              (items (cache m))"





text \<open>The cache of an enumerator, as its constructor builds it.\<close>

definition newDnsCache :: "string list CacheManager" where
  "newDnsCache = newCacheManager 5000 3600000"

section \<open>Example inputs for the cache and the resolver\<close>

text \<open>
  A resolver for which every lookup fails, one for which every lookup succeeds, one that
  has only an AAAA record for a single name, one that has an A record for \<open>www\<close> and
  only an AAAA record for \<open>six\<close>, and a discovery candidate for a name.  Under the
  limit 2, the schedule starts the first two of three tasks, lets the second finish, then
  the third, and the first one last.
\<close>

definition deadResolver :: Resolver where
  "deadResolver =
     \<lparr> resolve4 = (\<lambda>h. Inl ''ENOTFOUND''), resolve6 = (\<lambda>h. Inl ''ENOTFOUND'') \<rparr>"

definition liveResolver :: Resolver where
  "liveResolver =
     \<lparr> resolve4 = (\<lambda>h. Inr [''93.184.216.34'']), resolve6 = (\<lambda>h. Inr [''2606:2800::1'']) \<rparr>"

definition v6Resolver :: Resolver where
  "v6Resolver =
     \<lparr> resolve4 = (\<lambda>h. Inl ''ENODATA''),
       resolve6 = (\<lambda>h. if h = ''six.example.com'' then Inr [''2606:2800::1'']
                       else Inl ''ENODATA'') \<rparr>"


definition candidate :: "string \<Rightarrow> SubdomainResult" where
  "candidate h = \<lparr> hostnameS = h, source = CrtSh, resolvedIPs = [], timestampS = 0 \<rparr>"



section \<open>Host probe (src/core/probe.ts)\<close>

text \<open>
  A response of the HTTP client: status code, headers, and the body text, \<open>None\<close> when
  reading the body rejects.
\<close>

record Response =
  statusCodeR :: int
  headersR :: "string \<Rightarrow> hval option"
  bodyR :: "string option"

text \<open>
  The outside world of one probe attempt.  \<open>request k url\<close> is the outcome of the \<open>k\<close>-th
  request of the redirect loop (counted from 0), sent to \<open>url\<close> with the \<open>Host\<close> header of
  the attempt: a response, or \<open>None\<close> when the request rejects (timeout, abort, connection
  failure).  \<open>endpointRequest url\<close> is the same for an endpoint check.  \<open>newURL l b\<close> is
  \<open>new URL(l, b).toString()\<close> and \<open>urlProtocol u\<close> is \<open>new URL(u).protocol\<close>, \<open>None\<close> when
  the constructor throws.  \<open>tlsHandshake\<close> is what \<open>extractTLSInfoSafe\<close> resolves to.
  \<open>titleOf\<close> stands for \<open>extractTitle\<close>, \<open>toNumber\<close> for \<open>Number\<close> and \<open>byteLength\<close> for
  \<open>Buffer.byteLength\<close>.  The remaining fields are the readings of the clock: in
  \<open>cache.get\<close>, at \<open>start\<close>, after the body has been read, for \<open>timestamp\<close>, and in
  \<open>cache.set\<close>.
\<close>

record probeEnv =
  request :: "nat \<Rightarrow> string \<Rightarrow> Response option"
  endpointRequest :: "string \<Rightarrow> Response option"
  newURL :: "string \<Rightarrow> string \<Rightarrow> string option"
  urlProtocol :: "string \<Rightarrow> string option"
  tlsHandshake :: "TLSInfo option"
  titleOf :: "string \<Rightarrow> string option"
  toNumber :: "hval \<Rightarrow> int"
  byteLength :: "string \<Rightarrow> int"
  getTime :: int
  startTime :: int
  bodyTime :: int
  stampTime :: int
  setTime :: int

definition DEFAULT_COMMON_ENDPOINTS :: "string list" where
  "DEFAULT_COMMON_ENDPOINTS =
     [''/'', ''/login'', ''/admin'', ''/api'', ''/status'', ''/health'', ''/.git'',
      ''/robots.txt'', ''/sitemap.xml'']"

definition schemeName :: "scheme \<Rightarrow> string" where
  "schemeName p = (case p of Http \<Rightarrow> ''http'' | Https \<Rightarrow> ''https'')"

definition intToString :: "int \<Rightarrow> string" where
  "intToString i = (if i < 0 then ''-'' @ numToString (nat (- i)) else numToString (nat i))"

definition normalizeHeaders :: "(string \<Rightarrow> hval option) \<Rightarrow> (string \<Rightarrow> hval option)" where
  "normalizeHeaders hs =
     (\<lambda>k. case hs k of None \<Rightarrow> None
          | Some (HArr v) \<Rightarrow> Some (HStr (join v '', ''))
          | Some (HStr v) \<Rightarrow> Some (HStr v))"

text \<open>
  \<open>h || undefined\<close> for a header value \<open>h\<close>: an absent header and the empty string give
  \<open>undefined\<close>.
\<close>

definition truthyHeader :: "hval option \<Rightarrow> hval option" where
  "truthyHeader v =
     (case v of None \<Rightarrow> None
      | Some (HStr s) \<Rightarrow> if s = [] then None else Some (HStr s)
      | Some (HArr xs) \<Rightarrow> Some (HArr xs))"

text \<open>
  \<open>resolveLocation\<close>.  An array-valued header is turned into a string by the \<open>URL\<close>
  constructor (its elements joined by commas); in the fallback, \<open>startsWith\<close> on an array
  throws.  \<open>None\<close> is a throw, which the loop of \<open>fetchWithRedirects\<close> catches.
\<close>

definition resolveLocation :: "probeEnv \<Rightarrow> string \<Rightarrow> hval \<Rightarrow> string option" where
  "resolveLocation env currentUrl locationHeader =
     (case newURL env (case locationHeader of HStr s \<Rightarrow> s | HArr xs \<Rightarrow> join xs '','') currentUrl of
        Some u \<Rightarrow> Some u
      | None \<Rightarrow>
          (case locationHeader of
             HArr xs \<Rightarrow> None
           | HStr s \<Rightarrow>
               if startsWith s ''//''
               then (case urlProtocol env currentUrl of None \<Rightarrow> None | Some p \<Rightarrow> Some (p @ s))
               else Some s))"

text \<open>
  The \<open>while\<close> loop of \<open>fetchWithRedirects\<close>, with its three variables \<open>url\<close>,
  \<open>redirectChain\<close> and \<open>redirects\<close>.  The result is \<open>finalResponse\<close> (\<open>None\<close> for \<open>null\<close>)
  and the chain.
\<close>

function fetchLoop ::
  "probeEnv \<Rightarrow> nat \<Rightarrow> string \<Rightarrow> string list \<Rightarrow> nat \<Rightarrow> Response option \<times> string list" where
  "fetchLoop env maxRedirects url chain redirects =
     (if redirects \<le> maxRedirects
      then (case request env redirects url of
              None \<Rightarrow> (None, chain)
            | Some resp \<Rightarrow>
                (let status = statusCodeR resp
                 in case truthyHeader (headersR resp ''location'') of
                      Some rawLocation \<Rightarrow>
                        if status \<ge> 300 \<and> status < 400
                        then (case resolveLocation env url rawLocation of
                                None \<Rightarrow> (None, chain)
                              | Some location \<Rightarrow>
                                  fetchLoop env maxRedirects location (chain @ [location])
                                    (redirects + 1))
                        else (Some resp, chain)
                    | None \<Rightarrow> (Some resp, chain)))
      else (None, chain))"
  by pat_completeness auto
termination
  by (relation "measure (\<lambda>(env, maxRedirects, url, chain, redirects). Suc maxRedirects - redirects)")
     auto

declare fetchLoop.simps [simp del]

text \<open>The URL the loop starts with, the URL of an endpoint check, and the cache key.\<close>

definition startUrl :: "scheme \<Rightarrow> string \<Rightarrow> nat \<Rightarrow> string" where
  "startUrl proto addr portN = schemeName proto @ ''://'' @ addr @ '':'' @ numToString portN @ ''/''"

definition endpointUrl :: "scheme \<Rightarrow> string \<Rightarrow> nat \<Rightarrow> string \<Rightarrow> string" where
  "endpointUrl proto host portN p = schemeName proto @ ''://'' @ host @ '':'' @ numToString portN @ p"

definition probeCacheKey :: "scheme \<Rightarrow> string \<Rightarrow> string \<Rightarrow> nat \<Rightarrow> string" where
  "probeCacheKey proto host addr portN =
     ''probe:'' @ schemeName proto @ '':'' @ host @ '':'' @ addr @ '':'' @ numToString portN"

definition fetchWithRedirects ::
  "probeEnv \<Rightarrow> string \<Rightarrow> string \<Rightarrow> scheme \<Rightarrow> nat \<Rightarrow> nat \<Rightarrow> Response option \<times> string list" where
  "fetchWithRedirects env host addr proto portN maxRedirects =
     fetchLoop env maxRedirects (startUrl proto addr portN) [] 0"

text \<open>
  \<open>probeEndpoints\<close>: the set of paths, in insertion order; one check per path, in that
  order (\<open>Promise.all\<close> keeps it); and \<open>sort\<close>, which is stable, with the comparator
  \<open>Number(b.exists) - Number(a.exists)\<close>: a stable sort by the rank 0 for an existing and
  1 for a non-existing endpoint.  The endpoint limiter only bounds how many checks are in
  flight.
\<close>

definition addVariations :: "string list \<Rightarrow> string \<Rightarrow> string list" where
  "addVariations paths p =
     (let paths1 = (if \<not> endsWith p ''/'' then setAdd paths (p @ ''/'') else paths)
      in if \<not> includesStr p ''.''
         then setAdd (setAdd paths1 (p @ ''.php'')) (p @ ''.asp'')
         else paths1)"

definition expandPaths :: "string list \<Rightarrow> string list" where
  "expandPaths commonEndpoints =
     (let base = foldl setAdd [] commonEndpoints;
          varied = foldl addVariations base base
      in setAdd varied ''/'')"

definition endpointNote :: "string \<Rightarrow> string \<Rightarrow> string option" where
  "endpointNote p txt =
     (if regexTest [''index of /''] txt \<or> regexTest [''parent directory''] txt
        then Some ''Directory listing suspected''
      else if p = ''/robots.txt'' \<and> txt \<noteq> [] then Some ''robots.txt present''
      else if p = ''/sitemap.xml'' \<and> txt \<noteq> [] then Some ''sitemap.xml present''
      else None)"

definition checkEndpoint :: "probeEnv \<Rightarrow> string \<Rightarrow> scheme \<Rightarrow> nat \<Rightarrow> string \<Rightarrow> EndpointCheck" where
  "checkEndpoint env host proto portN p =
     (let url = endpointUrl proto host portN p
      in case endpointRequest env url of
           Some resp \<Rightarrow>
             (let ex = statusCodeR resp < 400
              in \<lparr> path = p, statusCodeE = statusCodeR resp, exists = ex,
                   notesE = (if ex then (case bodyR resp of None \<Rightarrow> None
                                         | Some txt \<Rightarrow> endpointNote p txt)
                             else None) \<rparr>)
         | None \<Rightarrow> \<lparr> path = p, statusCodeE = 0, exists = False, notesE = None \<rparr>)"

definition existsRank :: "EndpointCheck \<Rightarrow> nat" where
  "existsRank e = (if exists e then 0 else 1)"

definition probeEndpoints :: "probeEnv \<Rightarrow> string list \<Rightarrow> string \<Rightarrow> scheme \<Rightarrow> nat \<Rightarrow> EndpointCheck list" where
  "probeEndpoints env commonEndpoints host proto portN =
     (let resolved = map (checkEndpoint env host proto portN) (expandPaths commonEndpoints)
      in sort_key existsRank resolved)"

text \<open>
  \<open>probeHost\<close>.  Every failure inside the \<open>try\<close> (no final response, a body that cannot be
  read) ends in \<open>return null\<close>: the result is an option and there is no error result.
\<close>

definition probeHost ::
  "probeEnv \<Rightarrow> ProbeResult CacheManager \<Rightarrow> string list \<Rightarrow> string \<Rightarrow> string \<Rightarrow> scheme \<Rightarrow> nat
     \<Rightarrow> ProbeResult option \<times> ProbeResult CacheManager" where
  "probeHost env probeCache commonEndpoints host addr proto portN =
     (let cacheKey = probeCacheKey proto host addr portN
      in case cacheGet (getTime env) probeCache cacheKey of
           (Some cached, probeCache1) \<Rightarrow> (Some cached, probeCache1)
         | (None, probeCache1) \<Rightarrow>
             (let maxRedirects = 5;
                  (finalResponse, chain) = fetchWithRedirects env host addr proto portN maxRedirects
              in case finalResponse of
                   None \<Rightarrow> (None, probeCache1)
                 | Some resp \<Rightarrow>
                     (case bodyR resp of
                        None \<Rightarrow> (None, probeCache1)
                      | Some body \<Rightarrow>
                          (let result =
                                 \<lparr> hostname = host, ip = addr, protocol = proto, port = portN,
                                   statusCode = statusCodeR resp,
                                   statusText = intToString (statusCodeR resp),
                                   headers = normalizeHeaders (headersR resp),
                                   contentLength =
                                     (case truthyHeader (headersR resp ''content-length'') of
                                        Some v \<Rightarrow> toNumber env v
                                      | None \<Rightarrow> byteLength env body),
                                   title = titleOf env body,
                                   redirectChain = chain,
                                   tls = (if proto = Https then tlsHandshake env else None),
                                   endpoints = probeEndpoints env commonEndpoints host proto portN,
                                   responseTime = bodyTime env - startTime env,
                                   timestamp = stampTime env \<rparr>
                           in (Some result, cacheSet (setTime env) probeCache1 cacheKey result None)))))"

text \<open>The cache of a prober, as its constructor builds it.\<close>

definition newProbeCache :: "ProbeResult CacheManager" where
  "newProbeCache = newCacheManager 2000 (10 * 60 * 1000)"

text \<open>
  \<open>probeHosts\<close>: for every host name and every address of it, an HTTPS attempt on port 443
  and an HTTP attempt on port 80, all sharing the cache; the result is the list of the
  records that the attempts yielded.  The host limiter only bounds how many attempts are in
  flight; the attempts are modelled as run one after the other in the order they are
  launched, the \<open>k\<close>-th in the environment \<open>envs k\<close>.
\<close>

type_synonym probeTask = "string \<times> string \<times> scheme \<times> nat"

definition probeTasks :: "SubdomainResult list \<Rightarrow> probeTask list" where
  "probeTasks subdomains =
     concat (map (\<lambda>sub. concat (map (\<lambda>addr. [(hostnameS sub, addr, Https, 443),
                                                 (hostnameS sub, addr, Http, 80)])
                                  (resolvedIPs sub)))
                 subdomains)"

fun probeFrom ::
  "nat \<Rightarrow> (nat \<Rightarrow> probeEnv) \<Rightarrow> ProbeResult CacheManager \<Rightarrow> string list \<Rightarrow> probeTask list
     \<Rightarrow> ProbeResult list \<times> ProbeResult CacheManager" where
  "probeFrom k envs probeCache commonEndpoints [] = ([], probeCache)"
| "probeFrom k envs probeCache commonEndpoints ((host, addr, proto, portN) # tasks) =
     (let (res, probeCache1) = probeHost (envs k) probeCache commonEndpoints host addr proto portN;
          (results, probeCache2) = probeFrom (Suc k) envs probeCache1 commonEndpoints tasks
      in ((case res of None \<Rightarrow> [] | Some r \<Rightarrow> [r]) @ results, probeCache2))"

definition probeHosts ::
  "(nat \<Rightarrow> probeEnv) \<Rightarrow> ProbeResult CacheManager \<Rightarrow> string list \<Rightarrow> SubdomainResult list
     \<Rightarrow> ProbeResult list \<times> ProbeResult CacheManager" where
  "probeHosts envs probeCache commonEndpoints subdomains =
     probeFrom 0 envs probeCache commonEndpoints (probeTasks subdomains)"

text \<open>
  Vocabulary for the properties.  \<open>nextHop env k url\<close> is the URL that the \<open>k\<close>-th request,
  sent to \<open>url\<close>, redirects to, if it does; \<open>hopsFrom env k url n\<close> says that \<open>n\<close> requests
  in a row, from the \<open>k\<close>-th on, are such redirects.  \<open>cacheAll P m\<close> says that every value
  stored in \<open>m\<close> satisfies \<open>P\<close>.
\<close>

definition nextHop :: "probeEnv \<Rightarrow> nat \<Rightarrow> string \<Rightarrow> string option" where
  "nextHop env k url =
     (case request env k url of
        None \<Rightarrow> None
      | Some resp \<Rightarrow>
          (case truthyHeader (headersR resp ''location'') of
             None \<Rightarrow> None
           | Some loc \<Rightarrow>
               if statusCodeR resp \<ge> 300 \<and> statusCodeR resp < 400
               then resolveLocation env url loc else None))"

fun hopsFrom :: "probeEnv \<Rightarrow> nat \<Rightarrow> string \<Rightarrow> nat \<Rightarrow> bool" where
  "hopsFrom env k url 0 = True"
| "hopsFrom env k url (Suc n) =
     (case nextHop env k url of None \<Rightarrow> False | Some url' \<Rightarrow> hopsFrom env (Suc k) url' n)"

definition cacheAll :: "('v \<Rightarrow> bool) \<Rightarrow> 'v CacheManager \<Rightarrow> bool" where
  "cacheAll P m = list_all (\<lambda>i. P (valueE (fst (snd i)))) (items (cache m))"

definition chainOk :: "ProbeResult \<Rightarrow> bool" where
  "chainOk r = (length (redirectChain r) \<le> 5)"

definition hasRoot :: "EndpointCheck list \<Rightarrow> bool" where
  "hasRoot es = list_ex (\<lambda>e. path e = ''/'') es"

definition existingFirst :: "EndpointCheck list \<Rightarrow> bool" where
  "existingFirst es =
     (\<forall>i < length es. \<forall>j < length es. exists (es ! i) \<and> \<not> exists (es ! j) \<longrightarrow> i < j)"

definition endpointsOk :: "ProbeResult \<Rightarrow> bool" where
  "endpointsOk r = (hasRoot (endpoints r) \<and> existingFirst (endpoints r))"

section \<open>Example inputs for the probe\<close>

text \<open>
  Responses and environments: a server that redirects every request to \<open>/next\<close>, one that
  redirects the first five requests and then answers 200, and one where every request
  fails.
\<close>

definition redirectResponse :: Response where
  "redirectResponse =
     \<lparr> statusCodeR = 302, headersR = map_of [(''location'', HStr ''/next'')],
       bodyR = Some [] \<rparr>"

definition okResponse :: Response where
  "okResponse = \<lparr> statusCodeR = 200, headersR = Map.empty, bodyR = Some ''hello'' \<rparr>"

definition baseEnv :: probeEnv where
  "baseEnv =
     \<lparr> request = (\<lambda>k url. None), endpointRequest = (\<lambda>url. None),
       newURL = (\<lambda>l b. Some (''https://10.0.0.1:443'' @ l)), urlProtocol = (\<lambda>u. Some ''https:''),
       tlsHandshake = None, titleOf = (\<lambda>b. None), toNumber = (\<lambda>v. 0),
       byteLength = (\<lambda>b. int (length b)),
       getTime = 1000, startTime = 1000, bodyTime = 1100, stampTime = 1100, setTime = 1200 \<rparr>"

definition loopEnv :: probeEnv where
  "loopEnv = baseEnv \<lparr> request := (\<lambda>k url. Some redirectResponse) \<rparr>"

definition fiveHopEnv :: probeEnv where
  "fiveHopEnv =
     baseEnv \<lparr> request := (\<lambda>k url. if k < 5 then Some redirectResponse else Some okResponse) \<rparr>"

definition notFoundResponse :: Response where
  "notFoundResponse = \<lparr> statusCodeR = 404, headersR = Map.empty, bodyR = Some [] \<rparr>"

text \<open>An environment where \<open>/admin\<close> answers 200, \<open>/\<close> answers 404 and nothing else answers.\<close>

definition adminEnv :: probeEnv where
  "adminEnv =
     fiveHopEnv \<lparr> endpointRequest :=
       (\<lambda>url. if url = ''http://example.com:80/admin'' then Some okResponse
              else if url = ''http://example.com:80/'' then Some notFoundResponse
              else None) \<rparr>"

section \<open>Properties of the classifier\<close>

lemma foldl_applyFiring:
  "foldl applyFiring st fs =
     \<lparr> categoriesS = categoriesS st @ firedCategories fs,
       riskScoreS = foldl max (riskScoreS st) (map (\<lambda>(c, r, n). r) fs),
       notesS = notesS st @ map (\<lambda>(c, r, n). n) fs \<rparr>"
proof (induction fs arbitrary: st)
  case Nil
  show ?case by (simp add: firedCategories_def)
next
  case (Cons f fs)
  obtain c r n where f: "f = (c, r, n)" by (cases f)
  have step: "applyFiring st (c, r, n) =
      \<lparr> categoriesS = categoriesS st @ firedCategories [(c, r, n)],
        riskScoreS = max (riskScoreS st) r, notesS = notesS st @ [n] \<rparr>"
    by (cases c) (simp_all add: applyFiring_def firedCategories_def)
  have "foldl applyFiring st ((c, r, n) # fs) = foldl applyFiring (applyFiring st (c, r, n)) fs"
    by simp
  also have "\<dots> = \<lparr> categoriesS = categoriesS (applyFiring st (c, r, n)) @ firedCategories fs,
       riskScoreS = foldl max (riskScoreS (applyFiring st (c, r, n))) (map (\<lambda>(c, r, n). r) fs),
       notesS = notesS (applyFiring st (c, r, n)) @ map (\<lambda>(c, r, n). n) fs \<rparr>"
    by (rule Cons.IH)
  also have "\<dots> = \<lparr> categoriesS = categoriesS st @ firedCategories ((c, r, n) # fs),
       riskScoreS = foldl max (riskScoreS st) (map (\<lambda>(c, r, n). r) ((c, r, n) # fs)),
       notesS = notesS st @ map (\<lambda>(c, r, n). n) ((c, r, n) # fs) \<rparr>"
    unfolding step by (simp add: firedCategories_def)
  finally show ?case unfolding f .
qed

lemma foldl_max_ge: "(a :: 'a :: linorder) \<le> foldl max a xs"
proof (induction xs arbitrary: a)
  case Nil show ?case by simp
next
  case (Cons x xs)
  have "a \<le> max a x" by simp
  also have "\<dots> \<le> foldl max (max a x) xs" by (rule Cons.IH)
  finally show ?case by simp
qed

lemma foldl_max_Max: "foldl max (a :: 'a :: linorder) xs = Max (insert a (set xs))"
proof (induction xs arbitrary: a)
  case Nil show ?case by simp
next
  case (Cons x xs)
  have "Max (insert (max a x) (set xs)) = Max (insert a (insert x (set xs)))"
    by (cases "set xs = {}") (simp_all add: max.assoc)
  then show ?case using Cons by simp
qed

subsection \<open>Numbers\<close>

lemma mathMax_Num: "mathMax (Num a) (Num b) = Num (max a b)"
  by simp

lemma foldl_mathMax_Num: "foldl mathMax (Num a) (map Num xs) = Num (foldl max a xs)"
  by (induction xs arbitrary: a) simp_all

lemma foldl_mathMax_NaN: "foldl mathMax NaN xs = NaN"
  by (induction xs) simp_all

lemma mathMax_NaN_right: "mathMax a NaN = NaN"
  by (cases a) simp_all

lemma foldl_mathMax_has_NaN: "NaN \<in> set xs \<Longrightarrow> foldl mathMax a xs = NaN"
proof (induction xs arbitrary: a)
  case Nil then show ?case by simp
next
  case (Cons x xs)
  show ?case
  proof (cases "x = NaN")
    case True
    then show ?thesis by (simp add: mathMax_NaN_right foldl_mathMax_NaN)
  next
    case False
    then have "NaN \<in> set xs" using Cons.prems by auto
    then show ?thesis using Cons.IH by simp
  qed
qed

lemma Finite_max: "Finite (max a b) = max (Finite a) (Finite b)"
  by (simp add: max_def)

lemma ofInt_max: "ofInt (max a b) = mathMax (ofInt a) (ofInt b)"
  by (simp add: ofInt_def max_def)

lemma foldl_max_ofInt: "ofInt (foldl max a bs) = foldl mathMax (ofInt a) (map ofInt bs)"
  by (induction bs arbitrary: a) (simp_all add: ofInt_max)

lemma mathMax_idem: "mathMax a a = a"
  by (cases a) simp_all

subsection \<open>The plugin loop\<close>

lemma applyPlugin_returns:
  assumes "\<not> handlerThrows p result"
  shows "applyPlugin result (st, logged) p =
     Inr (\<lparr> categoriesV = categoriesV st @ hookCategories result [p],
            riskScoreV = foldl mathMax (riskScoreV st) (hookScores result [p]),
            notesV = notesV st @ hookNotes result [p] \<rparr>,
          logged @ failureLines result [p])"
proof (cases "onClassify p")
  case None
  then show ?thesis
    by (simp add: applyPlugin_def hookCategories_def hookScores_def hookNotes_def
          acceptedHint_def failureLines_def)
next
  case (Some f)
  show ?thesis
  proof (cases "f result")
    case (Throws error)
    then obtain m where "errorMessageOf error = Some m"
      using assms Some by (cases "errorMessageOf error") (simp_all add: handlerThrows_def)
    then show ?thesis using Some Throws
      by (simp add: applyPlugin_def hookCategories_def hookScores_def hookNotes_def
            acceptedHint_def failureLines_def)
  next
    case (Returns rawHint)
    show ?thesis
    proof (cases rawHint)
      case None
      then show ?thesis using Some Returns
        by (simp add: applyPlugin_def hookCategories_def hookScores_def hookNotes_def
              acceptedHint_def failureLines_def)
    next
      case h: (Some hint)
      show ?thesis
      proof (cases "rawCategories hint")
        case None
        then show ?thesis using Some Returns h
          by (simp add: applyPlugin_def hookCategories_def hookScores_def hookNotes_def
                acceptedHint_def failureLines_def)
      next
        case c: (Some cs)
        show ?thesis using Some Returns h c
          by (cases "rawNotes hint")
             (simp_all add: applyPlugin_def hookCategories_def hookScores_def hookNotes_def
                acceptedHint_def failureLines_def)
      qed
    qed
  qed
qed

lemma applyPlugin_rejects:
  assumes "handlerThrows p result"
  shows "applyPlugin result (st, logged) p = Inl (CatchHandlerThrew (name p))"
proof -
  obtain f error where "onClassify p = Some f" "f result = Throws error" "errorMessageOf error = None"
    using assms by (auto simp: handlerThrows_def split: option.splits hookOutcome.splits)
  then show ?thesis by (simp add: applyPlugin_def)
qed

lemma hook_append:
  "hookCategories result [p] @ hookCategories result ps = hookCategories result (p # ps)"
  "hookScores result [p] @ hookScores result ps = hookScores result (p # ps)"
  "hookNotes result [p] @ hookNotes result ps = hookNotes result (p # ps)"
  "failureLines result [p] @ failureLines result ps = failureLines result (p # ps)"
  by (simp_all add: hookCategories_def hookScores_def hookNotes_def failureLines_def)

lemma pluginLoop_returns:
  assumes "\<forall>p \<in> set ps. \<not> handlerThrows p result"
  shows "pluginLoop result (st, logged) ps =
     Inr (\<lparr> categoriesV = categoriesV st @ hookCategories result ps,
            riskScoreV = foldl mathMax (riskScoreV st) (hookScores result ps),
            notesV = notesV st @ hookNotes result ps \<rparr>,
          logged @ failureLines result ps)"
  using assms
proof (induction ps arbitrary: st logged)
  case Nil
  show ?case
    by (simp add: hookCategories_def hookScores_def hookNotes_def failureLines_def)
next
  case (Cons p ps)
  let ?st1 = "\<lparr> categoriesV = categoriesV st @ hookCategories result [p],
            riskScoreV = foldl mathMax (riskScoreV st) (hookScores result [p]),
            notesV = notesV st @ hookNotes result [p] \<rparr>"
  have a: "applyPlugin result (st, logged) p = Inr (?st1, logged @ failureLines result [p])"
    using Cons.prems by (simp add: applyPlugin_returns)
  have "pluginLoop result (st, logged) (p # ps) =
      pluginLoop result (?st1, logged @ failureLines result [p]) ps"
    by (simp add: a)
  also have "\<dots> = Inr (\<lparr> categoriesV = categoriesV ?st1 @ hookCategories result ps,
            riskScoreV = foldl mathMax (riskScoreV ?st1) (hookScores result ps),
            notesV = notesV ?st1 @ hookNotes result ps \<rparr>,
          (logged @ failureLines result [p]) @ failureLines result ps)"
    using Cons.prems by (intro Cons.IH) simp
  finally show ?case by (simp add: hook_append foldl_append [symmetric] del: foldl_append)
qed

lemma pluginLoop_rejects:
  assumes "\<exists>p \<in> set ps. handlerThrows p result"
  shows "isl (pluginLoop result acc ps)"
  using assms
proof (induction ps arbitrary: acc)
  case Nil then show ?case by simp
next
  case (Cons p ps)
  obtain st logged where acc: "acc = (st, logged)" by (cases acc)
  show ?case
  proof (cases "handlerThrows p result")
    case True
    then show ?thesis unfolding acc by (simp add: applyPlugin_rejects)
  next
    case False
    then have "\<exists>q \<in> set ps. handlerThrows q result" using Cons.prems by auto
    then show ?thesis unfolding acc using False Cons.IH
      by (simp add: applyPlugin_returns)
  qed
qed

subsection \<open>One record\<close>

lemma applyBuiltInRules_fields:
  "categoriesH (applyBuiltInRules now result) =
     (if builtInCategories now result \<noteq> [] then builtInCategories now result else [''standard''])"
  "riskScoreH (applyBuiltInRules now result) = foldl max 0 (builtInScores now result)"
  "(if notesH (applyBuiltInRules now result) \<noteq> [] then [notesH (applyBuiltInRules now result)] else [])
     = builtInNotes now result"
  by (simp_all add: applyBuiltInRules_def Let_def foldl_applyFiring builtInCategories_def
        builtInScores_def builtInNotes_def)

lemma builtIn_score_fold:
  "mathMax (ofInt 0) (ofInt (riskScoreH (applyBuiltInRules now result))) =
     foldl mathMax (ofInt 0) (map ofInt (builtInScores now result))"
proof -
  have "mathMax (ofInt 0) (ofInt (foldl max 0 (builtInScores now result))) =
      ofInt (max 0 (foldl max 0 (builtInScores now result)))"
    by (simp add: ofInt_max)
  also have "max 0 (foldl max 0 (builtInScores now result)) = foldl max 0 (builtInScores now result)"
    using foldl_max_ge [of 0 "builtInScores now result"] by simp
  finally show ?thesis by (simp add: applyBuiltInRules_fields foldl_max_ofInt)
qed

lemma classifyRecord_returns:
  assumes "\<forall>p \<in> set plugins. \<not> handlerThrows p result"
  shows "classifyRecord now result plugins =
           Inr (classified now result plugins, failureLines result plugins)"
proof -
  let ?st0 = "\<lparr> categoriesV = [] @ categoriesH (applyBuiltInRules now result),
                 riskScoreV = mathMax (ofInt 0) (ofInt (riskScoreH (applyBuiltInRules now result))),
                 notesV = (if notesH (applyBuiltInRules now result) \<noteq> []
                           then [notesH (applyBuiltInRules now result)] else []) \<rparr>"
  have l: "pluginLoop result (?st0, []) plugins =
     Inr (\<lparr> categoriesV = categoriesV ?st0 @ hookCategories result plugins,
            riskScoreV = foldl mathMax (riskScoreV ?st0) (hookScores result plugins),
            notesV = notesV ?st0 @ hookNotes result plugins \<rparr>,
          [] @ failureLines result plugins)"
    using assms by (rule pluginLoop_returns)
  have s: "foldl mathMax (riskScoreV ?st0) (hookScores result plugins) =
      foldl mathMax (ofInt 0) (contributedScores now result plugins)"
    by (simp add: builtIn_score_fold contributedScores_def)
  have n: "notesV ?st0 = builtInNotes now result"
    using applyBuiltInRules_fields(3) [of now result] by simp
  show ?thesis
    unfolding classifyRecord_def Let_def l s n
    by (simp add: classified_def)
qed

lemma classifyRecord_rejects:
  assumes "\<exists>p \<in> set plugins. handlerThrows p result"
  shows "isl (classifyRecord now result plugins)"
proof -
  let ?st0 = "\<lparr> categoriesV = [] @ categoriesH (applyBuiltInRules now result),
                 riskScoreV = mathMax (ofInt 0) (ofInt (riskScoreH (applyBuiltInRules now result))),
                 notesV = (if notesH (applyBuiltInRules now result) \<noteq> []
                           then [notesH (applyBuiltInRules now result)] else []) \<rparr>"
  have "isl (pluginLoop result (?st0, []) plugins)"
    using assms by (rule pluginLoop_rejects)
  then obtain e where "pluginLoop result (?st0, []) plugins = Inl e"
    by (cases "pluginLoop result (?st0, []) plugins") simp_all
  then show ?thesis
    unfolding classifyRecord_def Let_def by simp
qed

lemma classifyRecord_Inr:
  assumes "classifyRecord now result plugins = Inr (c, logged)"
  shows "(\<forall>p \<in> set plugins. \<not> handlerThrows p result)
       \<and> c = classified now result plugins \<and> logged = failureLines result plugins"
proof -
  have h: "\<forall>p \<in> set plugins. \<not> handlerThrows p result"
  proof (rule ccontr)
    assume "\<not> (\<forall>p \<in> set plugins. \<not> handlerThrows p result)"
    then have "isl (classifyRecord now result plugins)"
      by (intro classifyRecord_rejects) simp
    then show False using assms by simp
  qed
  then show ?thesis using assms classifyRecord_returns [of plugins result now] by simp
qed

lemma classified_fields:
  "categories (classified now result plugins) =
     newSet (categoriesH (applyBuiltInRules now result) @ hookCategories result plugins)"
  "riskScore (classified now result plugins) =
     mathMin (foldl mathMax (ofInt 0) (contributedScores now result plugins)) (ofInt 100)"
  "notesC (classified now result plugins) =
     (if builtInNotes now result @ hookNotes result plugins \<noteq> []
      then join (builtInNotes now result @ hookNotes result plugins) ''; ''
      else ''No significant findings'')"
  "ProbeResult.truncate (classified now result plugins) = result"
  by (simp_all add: classified_def ProbeResult.extend_def ProbeResult.truncate_def)

lemma riskScore_of_numbers:
  assumes "contributedScores now result plugins = map Num xs"
  shows "riskScore (classified now result plugins) =
           Num (min (Max (insert (Finite 0) (set xs))) (Finite 100))"
proof -
  have "foldl mathMax (ofInt 0) (contributedScores now result plugins) =
      Num (foldl max (Finite 0) xs)"
    unfolding assms by (simp add: ofInt_def foldl_mathMax_Num)
  then show ?thesis
    by (simp add: classified_fields ofInt_def foldl_max_Max)
qed

lemma nan_score_propagates:
  assumes "classifyRecord now result plugins = Inr (c, logged)"
      and "NaN \<in> set (hookScores result plugins)"
  shows "riskScore c = NaN"
proof -
  have "NaN \<in> set (contributedScores now result plugins)"
    using assms(2) by (simp add: contributedScores_def)
  then have "foldl mathMax (ofInt 0) (contributedScores now result plugins) = NaN"
    by (rule foldl_mathMax_has_NaN)
  then show ?thesis
    using classifyRecord_Inr [OF assms(1)] by (simp add: classified_fields)
qed

text \<open>
  Claim C1, as the code has it.  For every probe record, clock reading and list of plugins
  for which the classification returns, when no contributed score is \<open>NaN\<close>, the risk
  score of the classified record is the maximum of all contributed scores (the risk of
  every built-in rule that fired and the score of every hint that was accepted), clamped
  to the interval from 0 to 100; with nothing contributed it is 0.  It is then at least 0
  and at most 100, whatever else the hooks return.
\<close>

theorem riskScore_max_clamped:
  assumes "classifyRecord now result plugins = Inr (c, logged)"
      and "contributedScores now result plugins = map Num xs"
  shows "riskScore c = Num (if xs = [] then Finite 0 else clamp (Max (set xs)))
       \<and> jsLe (ofInt 0) (riskScore c) \<and> jsLe (riskScore c) (ofInt 100)"
proof -
  have c: "c = classified now result plugins"
    using classifyRecord_Inr [OF assms(1)] by simp
  have r: "riskScore c = Num (min (Max (insert (Finite 0) (set xs))) (Finite 100))"
    unfolding c using assms(2) by (rule riskScore_of_numbers)
  have lo: "Finite 0 \<le> Max (insert (Finite 0) (set xs))" by simp
  have cl: "min (max (Finite 0) m) (Finite 100) = clamp m" for m
    by (cases m) (simp_all add: clamp_def min_def max_def)
  have eq: "riskScore c = Num (if xs = [] then Finite 0 else clamp (Max (set xs)))"
  proof (cases "xs = []")
    case True
    then show ?thesis using r by (simp add: min_def)
  next
    case False
    then have "Max (insert (Finite 0) (set xs)) = max (Finite 0) (Max (set xs))" by simp
    then have "riskScore c = Num (min (max (Finite 0) (Max (set xs))) (Finite 100))"
      using r by (simp only:)
    then show ?thesis using False by (simp only: cl if_False)
  qed
  have "jsLe (ofInt 0) (riskScore c)" using lo unfolding r by (simp add: ofInt_def min_def)
  moreover have "jsLe (riskScore c) (ofInt 100)" unfolding r by (simp add: ofInt_def)
  ultimately show ?thesis using eq by blast
qed

lemmas rule_defs = builtInFirings_def hostnameRules_def hostnamePatterns_def statusRules_def
  serverRules_def outdatedPatterns_def corsRules_def securityHeaders_def headerFalsy_def
  missingHeaderRules_def sensitiveRules_def directoryListingRules_def tlsRules_def
  noTlsRules_def slowRules_def firedCategories_def regexTest_def toLowerCase_def lowerChar_def

lemmas example_defs = quietRecord_def apiRecord_def secureHeaders_def wordpressPlugin_def
  faultyPlugin_def nanPlugin_def opaquePlugin_def

lemma quiet_firings: "builtInFirings now quietRecord = []"
  by (simp add: rule_defs example_defs)

lemma api_firings: "builtInFirings now apiRecord = [(Some ''api'', 40, ''api detected in hostname'')]"
  by (simp add: rule_defs example_defs)

lemma example_handlers:
  "\<not> handlerThrows faultyPlugin r" "\<not> handlerThrows wordpressPlugin r"
  "\<not> handlerThrows nanPlugin r" "handlerThrows opaquePlugin r"
  "throwsOn faultyPlugin r" "\<not> throwsOn wordpressPlugin r"
  by (simp_all add: handlerThrows_def throwsOn_def example_defs)

text \<open>
  The host named \<open>api\<close> under a throwing hook and a hook that returns 150: the contributions
  are 40 and 150 (not added up), and the score is 100.
\<close>

theorem riskScore_max_clamped_witness:
  "classifyRecord 0 apiRecord [faultyPlugin, wordpressPlugin] =
     Inr (classified 0 apiRecord [faultyPlugin, wordpressPlugin],
          [(Error, ''Plugin faulty-plugin classification failed: Plugin error'')])
   \<and> contributedScores 0 apiRecord [faultyPlugin, wordpressPlugin] = map Num [Finite 40, Finite 150]
   \<and> riskScore (classified 0 apiRecord [faultyPlugin, wordpressPlugin]) = Num (Finite 100)"
proof -
  have s: "contributedScores 0 apiRecord [faultyPlugin, wordpressPlugin] = map Num [Finite 40, Finite 150]"
    by (simp add: contributedScores_def builtInScores_def api_firings hookScores_def
          acceptedHint_def wordpressPlugin_def faultyPlugin_def ofInt_def)
  have c: "classifyRecord 0 apiRecord [faultyPlugin, wordpressPlugin] =
     Inr (classified 0 apiRecord [faultyPlugin, wordpressPlugin],
          [(Error, ''Plugin faulty-plugin classification failed: Plugin error'')])"
    by (simp add: classifyRecord_returns example_handlers)
       (simp add: failureLines_def faultyPlugin_def wordpressPlugin_def)
  have "riskScore (classified 0 apiRecord [faultyPlugin, wordpressPlugin]) =
      Num (clamp (Max (set [Finite 40, Finite 150])))"
    using riskScore_max_clamped [OF c s] by simp
  then show ?thesis using s c by (simp add: clamp_def)
qed

text \<open>
  The claim as stated fails: a hook may return any number, and with a hook that returns
  \<open>NaN\<close> the score of the host named \<open>api\<close> is \<open>NaN\<close>, which is neither the greatest
  contribution cut at 100 nor at most 100.
\<close>

theorem riskScore_max_clamped_counterexample:
  "classifyRecord 0 apiRecord [nanPlugin] = Inr (classified 0 apiRecord [nanPlugin], [])
   \<and> contributedScores 0 apiRecord [nanPlugin] = [ofInt 40, NaN]
   \<and> riskScore (classified 0 apiRecord [nanPlugin]) = NaN
   \<and> \<not> jsLe (riskScore (classified 0 apiRecord [nanPlugin])) (ofInt 100)"
proof -
  have s: "contributedScores 0 apiRecord [nanPlugin] = [ofInt 40, NaN]"
    by (simp add: contributedScores_def builtInScores_def api_firings hookScores_def
          acceptedHint_def nanPlugin_def)
  have c: "classifyRecord 0 apiRecord [nanPlugin] = Inr (classified 0 apiRecord [nanPlugin], [])"
    by (simp add: classifyRecord_returns example_handlers)
       (simp add: failureLines_def nanPlugin_def)
  have "riskScore (classified 0 apiRecord [nanPlugin]) = NaN"
    by (simp add: classified_fields s ofInt_def)
  then show ?thesis using s c by simp
qed

subsection \<open>Categories\<close>

lemma set_newSet: "set (newSet xs) = set xs"
proof -
  have "set (foldl setAdd acc xs) = set acc \<union> set xs" for acc :: "'a list"
    by (induction xs arbitrary: acc) (auto simp: setAdd_def)
  then show ?thesis by (simp add: newSet_def)
qed

lemma firedCategories_append: "firedCategories (xs @ ys) = firedCategories xs @ firedCategories ys"
  by (simp add: firedCategories_def)

lemma standard_not_hostname: "''standard'' \<notin> set (firedCategories (hostnameRules result))"
  by (simp add: hostnameRules_def hostnamePatterns_def firedCategories_def)

lemma standard_not_status: "''standard'' \<notin> set (firedCategories (statusRules result cats))"
  by (simp add: statusRules_def firedCategories_def)

lemma standard_not_header:
  "''standard'' \<notin> set (firedCategories (serverRules result))"
  "''standard'' \<notin> set (firedCategories (corsRules result))"
  "''standard'' \<notin> set (firedCategories (missingHeaderRules result))"
  by (simp_all add: serverRules_def corsRules_def missingHeaderRules_def firedCategories_def Let_def)

lemma standard_not_endpoint:
  "''standard'' \<notin> set (firedCategories (sensitiveRules result))"
  "''standard'' \<notin> set (firedCategories (directoryListingRules result))"
  by (simp_all add: sensitiveRules_def directoryListingRules_def firedCategories_def Let_def
        split: option.splits)

lemma standard_not_tls:
  "''standard'' \<notin> set (firedCategories (tlsRules now result))"
  "''standard'' \<notin> set (firedCategories (noTlsRules result))"
  "''standard'' \<notin> set (firedCategories (slowRules result))"
  by (simp_all add: tlsRules_def noTlsRules_def slowRules_def firedCategories_def Let_def
        split: option.splits jsdate.splits)

lemma standard_not_builtIn: "''standard'' \<notin> set (builtInCategories now result)"
  by (simp add: builtInCategories_def builtInFirings_def Let_def firedCategories_append
        standard_not_hostname standard_not_status standard_not_header standard_not_endpoint
        standard_not_tls)

text \<open>
  Claim C2, as the code has it.  The classification of a record returns unless the
  \<open>catch\<close> handler throws.  The categories of a classified record are never empty.  The
  sentinel \<open>standard\<close> is put in by \<open>applyBuiltInRules\<close>, before the hooks run: it is
  among the categories exactly when no built-in rule contributed a category, or a hook
  contributed \<open>standard\<close> itself.  Categories of hooks are appended after it.
\<close>

theorem categories_sentinel:
  "((\<forall>p \<in> set plugins. \<not> handlerThrows p result)
      \<longrightarrow> (\<exists>c logged. classifyRecord now result plugins = Inr (c, logged)))
   \<and> (\<forall>c logged. classifyRecord now result plugins = Inr (c, logged) \<longrightarrow>
         categories c \<noteq> []
       \<and> (''standard'' \<in> set (categories c)
            \<longleftrightarrow> builtInCategories now result = []
                \<or> ''standard'' \<in> set (hookCategories result plugins)))"
proof -
  have 1: "(\<forall>p \<in> set plugins. \<not> handlerThrows p result)
      \<longrightarrow> (\<exists>c logged. classifyRecord now result plugins = Inr (c, logged))"
    by (simp add: classifyRecord_returns)
  have 2: "categories c \<noteq> []
       \<and> (''standard'' \<in> set (categories c)
            \<longleftrightarrow> builtInCategories now result = []
                \<or> ''standard'' \<in> set (hookCategories result plugins))"
    if r: "classifyRecord now result plugins = Inr (c, logged)" for c logged
  proof -
    have c: "c = classified now result plugins"
      using classifyRecord_Inr [OF r] by simp
    have s: "set (categories c) =
        set (categoriesH (applyBuiltInRules now result)) \<union> set (hookCategories result plugins)"
      unfolding c by (simp add: classified_fields set_newSet)
    have b: "categoriesH (applyBuiltInRules now result) \<noteq> []"
      by (simp add: applyBuiltInRules_fields)
    then have "set (categories c) \<noteq> {}" unfolding s by simp
    then have ne: "categories c \<noteq> []" by auto
    have "''standard'' \<in> set (categoriesH (applyBuiltInRules now result)) \<longleftrightarrow> builtInCategories now result = []"
      using standard_not_builtIn [of now result] by (simp add: applyBuiltInRules_fields)
    then show ?thesis using ne s by auto
  qed
  show ?thesis using 1 2 by blast
qed

lemma quiet_wordpress:
  "classifyRecord 0 quietRecord [wordpressPlugin] = Inr (classified 0 quietRecord [wordpressPlugin], [])"
  "hookCategories quietRecord [wordpressPlugin] = [''wordpress'']"
  "builtInCategories 0 quietRecord = []"
  "categories (classified 0 quietRecord [wordpressPlugin]) = [''standard'', ''wordpress'']"
proof -
  show 1: "classifyRecord 0 quietRecord [wordpressPlugin] = Inr (classified 0 quietRecord [wordpressPlugin], [])"
    by (simp add: classifyRecord_returns example_handlers)
       (simp add: failureLines_def wordpressPlugin_def)
  show h: "hookCategories quietRecord [wordpressPlugin] = [''wordpress'']"
    by (simp add: hookCategories_def acceptedHint_def wordpressPlugin_def)
  show b: "builtInCategories 0 quietRecord = []"
    by (simp add: builtInCategories_def quiet_firings firedCategories_def)
  show "categories (classified 0 quietRecord [wordpressPlugin]) = [''standard'', ''wordpress'']"
    by (simp add: classified_fields applyBuiltInRules_fields h b newSet_def setAdd_def)
qed

text \<open>
  The claim as stated fails: on a host that triggers no built-in rule, with a hook that
  contributes \<open>wordpress\<close>, the classification returns and the categories are \<open>standard\<close>
  followed by \<open>wordpress\<close>, although a hook contributed a category.
\<close>

theorem categories_sentinel_counterexample:
  "classifyRecord 0 quietRecord [wordpressPlugin] = Inr (classified 0 quietRecord [wordpressPlugin], [])
   \<and> categories (classified 0 quietRecord [wordpressPlugin]) = [''standard'', ''wordpress'']
   \<and> \<not> (''standard'' \<in> set (categories (classified 0 quietRecord [wordpressPlugin]))
        \<longleftrightarrow> builtInCategories 0 quietRecord = [] \<and> hookCategories quietRecord [wordpressPlugin] = [])"
  by (simp add: quiet_wordpress)

text \<open>The same input, through the theorem.\<close>

theorem categories_sentinel_witness:
  "classifyRecord 0 quietRecord [wordpressPlugin] = Inr (classified 0 quietRecord [wordpressPlugin], [])
   \<and> categories (classified 0 quietRecord [wordpressPlugin]) \<noteq> []
   \<and> ''standard'' \<in> set (categories (classified 0 quietRecord [wordpressPlugin]))
   \<and> builtInCategories 0 quietRecord = []"
  using categories_sentinel [of "[wordpressPlugin]" quietRecord 0] quiet_wordpress(1,3) by simp

subsection \<open>Throwing hooks\<close>










lemma classifyFrom_rejects:
  assumes "\<exists>r \<in> set rs. \<exists>p \<in> set ps. handlerThrows p r"
  shows "isl (classifyFrom k clock rs ps)"
  using assms
proof (induction rs arbitrary: k)
  case Nil then show ?case by simp
next
  case (Cons r rs)
  show ?case
  proof (cases "\<exists>p \<in> set ps. handlerThrows p r")
    case True
    then have "isl (classifyRecord (clock k) r ps)" by (rule classifyRecord_rejects)
    then show ?thesis by (auto split: sum.splits)
  next
    case False
    then have "\<exists>r \<in> set rs. \<exists>p \<in> set ps. handlerThrows p r" using Cons.prems by auto
    then have "isl (classifyFrom (Suc k) clock rs ps)" by (rule Cons.IH)
    then show ?thesis by (auto split: sum.splits)
  qed
qed








subsection \<open>Two cases of tests/enumerator.test.ts\<close>

text \<open>
  The admin host with no headers is classified \<open>admin-panel\<close> with score 85, and the
  quiet host gets exactly the category \<open>standard\<close>, as the repository's tests expect.
\<close>

lemma test_admin_panel:
  "builtInFirings now (quietRecord \<lparr> hostname := ''admin.example.com'', headers := Map.empty \<rparr>) =
     [(Some ''admin-panel'', 85, ''admin-panel detected in hostname''),
      (None, 85, ''Admin panel accessible''),
      (Some ''weak-headers'', 45, ''Missing 4 security headers'')]"
  by (simp add: rule_defs quietRecord_def numToString.simps decDigit_def)

lemma test_admin_panel_classified:
  "classifyRecord now (quietRecord \<lparr> hostname := ''admin.example.com'', headers := Map.empty \<rparr>) [] =
     Inr (classified now (quietRecord \<lparr> hostname := ''admin.example.com'', headers := Map.empty \<rparr>) [], [])
   \<and> categories (classified now (quietRecord \<lparr> hostname := ''admin.example.com'', headers := Map.empty \<rparr>) [])
     = [''admin-panel'', ''weak-headers'']
   \<and> riskScore (classified now (quietRecord \<lparr> hostname := ''admin.example.com'', headers := Map.empty \<rparr>) [])
     = ofInt 85"
  by (simp add: classifyRecord_returns classified_fields applyBuiltInRules_fields
        builtInCategories_def builtInScores_def contributedScores_def
        test_admin_panel firedCategories_def hookCategories_def hookScores_def failureLines_def
        newSet_def setAdd_def ofInt_def)

lemma test_standard:
  "classifyRecord now quietRecord [] =
     Inr (ProbeResult.extend quietRecord
            \<lparr> categories = [''standard''], riskScore = ofInt 0,
              notesC = ''No significant findings'' \<rparr>, [])"
  by (simp add: classifyRecord_def applyBuiltInRules_def quiet_firings
        newSet_def setAdd_def Let_def ofInt_def)
section \<open>Properties of the cache\<close>

lemma find_after_append:
  "find (\<lambda>i. fst i = k) (filter (\<lambda>i. fst i \<noteq> k) xs @ [(k, e, s)]) = Some (k, e, s)"
  by (induction xs) auto

lemma set_tl_subset: "set (tl xs) \<subseteq> set xs"
  by (cases xs) auto

lemma find_tl_append:
  "set ys \<subseteq> set xs \<Longrightarrow> \<not> list_ex (\<lambda>i. fst i = k) xs \<Longrightarrow>
     find (\<lambda>i. fst i = k) (ys @ [(k, e, s)]) = Some (k, e, s)"
  by (induction ys) (auto simp: list_ex_iff)

lemma find_lruSet:
  "find (\<lambda>i. fst i = k) (items (lruSet now c k e)) = Some (k, e, itemStart c now)"
proof (cases "list_ex (\<lambda>i. fst i = k) (items c)")
  case True
  then show ?thesis by (simp add: lruSet_def find_after_append)
next
  case False
  have "set (if length (items c) = maxL c then tl (items c) else items c) \<subseteq> set (items c)"
    using set_tl_subset [of "items c"] by simp
  then have "find (\<lambda>i. fst i = k)
      ((if length (items c) = maxL c then tl (items c) else items c) @ [(k, e, itemStart c now)])
      = Some (k, e, itemStart c now)"
    using False by (rule find_tl_append)
  then show ?thesis using False by (simp add: lruSet_def)
qed

lemma lruSet_fields: "ttlL (lruSet now c k e) = ttlL c" "maxL (lruSet now c k e) = maxL c"
  by (simp_all add: lruSet_def)

lemma cacheGet_after_set:
  "cacheGet now' (cacheSet now m k v ttl) k =
     (let c = cache m; t = (case ttl of None \<Rightarrow> defaultTTL m | Some t \<Rightarrow> t);
          e = \<lparr> valueE = v, expiresAt = now + t \<rparr>; c1 = lruSet now c k e
      in if isStale (ttlL c) now' (itemStart c now) then (None, m \<lparr> cache := lruDelete c1 k \<rparr>)
         else if now' > now + t
           then (None, m \<lparr> cache := lruDelete (c1 \<lparr> items := filter (\<lambda>i. fst i \<noteq> k) (items c1) @ [(k, e, itemStart c now')] \<rparr>) k \<rparr>)
         else (Some v, m \<lparr> cache := c1 \<lparr> items := filter (\<lambda>i. fst i \<noteq> k) (items c1) @ [(k, e, itemStart c now')] \<rparr> \<rparr>))"
  by (simp add: cacheGet_def cacheSet_def lruGet_def find_lruSet lruSet_fields Let_def itemStart_def)

text \<open>
  What \<open>set\<close> followed by \<open>get\<close> does.  Once the per-entry TTL has elapsed, the entry is
  absent and removed.  Before that, the value comes back as long as the per-entry TTL does
  not exceed the TTL the wrapped cache was built with.
\<close>

lemma get_after_ttl_elapsed:
  assumes "now' - now > t"
  shows "fst (cacheGet now' (cacheSet now m k v (Some t)) k) = None"
    and "k \<notin> cachedKeys (snd (cacheGet now' (cacheSet now m k v (Some t)) k))"
  using assms by (auto simp: cacheGet_after_set Let_def cachedKeys_def lruDelete_def)

lemma get_before_ttl_elapsed:
  assumes "now' - now < t" and "ttlL (cache m) = 0 \<or> t \<le> ttlL (cache m)"
  shows "fst (cacheGet now' (cacheSet now m k v (Some t)) k) = Some v"
  using assms by (auto simp: cacheGet_after_set Let_def isStale_def itemStart_def)

text \<open>
  Claim C5 says that after \<open>set(key, value, t)\<close> a \<open>get(key)\<close> strictly before \<open>t\<close> has
  elapsed returns the value, also when \<open>t\<close> is longer than the default TTL.  The code does
  not: \<open>set\<close> computes \<open>expiresAt\<close> from \<open>t\<close> but stores the entry in the wrapped cache
  without a TTL of its own, so the wrapped cache drops it after the default TTL.  With
  the default TTL of 300000 ms and \<open>t\<close> = 600000 ms, an entry set at instant 1 is gone at
  instant 400001.
\<close>

theorem custom_ttl_beyond_default_dropped:
  "fst (cacheGet 400001 (cacheSet 1 (newCacheManager 1000 300000) ''k'' ''v'' (Some 600000)) ''k'')
     = None"
  by (simp add: cacheGet_after_set Let_def isStale_def itemStart_def newCacheManager_def)

section \<open>Properties of the resolver\<close>

lemma cacheGet_miss:
  "k \<notin> cachedKeys m \<Longrightarrow> cacheGet now m k = (None, m)"
proof -
  assume "k \<notin> cachedKeys m"
  then have "find (\<lambda>i. fst i = k) (items (cache m)) = None"
    by (force simp: cachedKeys_def find_None_iff)
  then show ?thesis by (simp add: cacheGet_def lruGet_def)
qed

lemma keys_lruSet: "fst ` set (items (lruSet now c k e)) \<subseteq> insert k (fst ` set (items c))"
proof (cases "list_ex (\<lambda>i. fst i = k) (items c)")
  case True
  then show ?thesis by (auto simp: lruSet_def)
next
  case False
  let ?kept = "if length (items c) = maxL c then tl (items c) else items c"
  have "set ?kept \<subseteq> set (items c)" using set_tl_subset [of "items c"] by simp
  then have sub: "fst ` set ?kept \<subseteq> fst ` set (items c)" by (rule image_mono)
  have "items (lruSet now c k e) = ?kept @ [(k, e, itemStart c now)]"
    using False by (simp add: lruSet_def)
  then have "fst ` set (items (lruSet now c k e)) = insert k (fst ` set ?kept)"
    by (simp only: set_append image_Un list.set image_insert image_empty fst_conv Un_insert_right Un_empty_right)
  then show ?thesis using sub by blast
qed

lemma cachedKeys_cacheSet: "cachedKeys (cacheSet now m k v ttl) \<subseteq> insert k (cachedKeys m)"
  using keys_lruSet [of now "cache m" k] by (simp add: cachedKeys_def cacheSet_def Let_def)

lemma getOrSet_hit: "cacheGet t m k = (Some v, m') \<Longrightarrow> getOrSet t s m k f ttl = ((v, []), m')"
  by (simp add: getOrSet_def)

lemma getOrSet_miss:
  "cacheGet t m k = (None, m') \<Longrightarrow>
     getOrSet t s m k f ttl = (f (), cacheSet s m' k (fst (f ())) ttl)"
  by (simp add: getOrSet_def split_beta)

lemma resolveFactory_lookupAnswer: "fst (resolveFactory r h) = lookupAnswer r h"
  by (simp add: resolveFactory_def lookupAnswer_def split: sum.splits)

subsection \<open>What the cache holds\<close>







lemma answersCached_empty: "items (cache m) = [] \<Longrightarrow> answersCached r m"
  by (simp add: answersCached_def)

subsection \<open>One step of a task\<close>






subsection \<open>Every run\<close>





subsection \<open>A run that finishes\<close>











subsection \<open>A task on its own\<close>

text \<open>
  The steps of one task, taken in a row at one instant, do what \<open>resolveDNS\<close> does as a
  whole: the same cache is left, the same queries are sent, and the candidate is pushed
  exactly when \<open>resolveDNS\<close> gives an address.
\<close>

lemma task_alone:
  assumes "0 < c"
  shows "dnsCacheV (verifyRun c r m [cand] (replicate 5 (0, now)))
           = snd (resolveDNS r now now m (hostnameS cand))
       \<and> map snd (queriesV (verifyRun c r m [cand] (replicate 5 (0, now))))
           = snd (fst (resolveDNS r now now m (hostnameS cand)))
       \<and> verifiedV (verifyRun c r m [cand] (replicate 5 (0, now)))
           = (if fst (fst (resolveDNS r now now m (hostnameS cand))) \<noteq> []
              then [cand \<lparr> resolvedIPs := fst (fst (resolveDNS r now now m (hostnameS cand))) \<rparr>]
              else [])"
proof -
  let ?h = "hostnameS cand"
  have five: "replicate 5 x = [x, x, x, x, x]" for x :: "nat \<times> int"
    by (simp add: numeral_eq_Suc)
  have st: "startable c [Queued] 0" using assms by (simp add: startable_def inFlight_def)
  obtain ov m' where g: "cacheGet now m (''dns:'' @ ?h) = (ov, m')"
    by (cases "cacheGet now m (''dns:'' @ ?h)")
  show ?thesis
  proof (cases ov)
    case (Some v)
    show ?thesis using g Some st
      by (simp add: five verifyRun_def verifyInit_def taskStep_def Let_def resolveDNS_def
            getOrSet_def)
  next
    case None
    show ?thesis
    proof (cases "resolve4 r ?h")
      case (Inr a)
      show ?thesis using g None st Inr
        by (simp add: five verifyRun_def verifyInit_def taskStep_def Let_def resolveDNS_def
              getOrSet_def resolveFactory_def)
    next
      case (Inl e)
      show ?thesis using g None st Inl
        by (cases "resolve6 r ?h")
           (simp_all add: five verifyRun_def verifyInit_def taskStep_def Let_def resolveDNS_def
              getOrSet_def resolveFactory_def)
    qed
  qed
qed

subsection \<open>Failures are cached\<close>

text \<open>
  Claim C10.  On the enumerator's cache (wrapped TTL one hour), when the lookup of a host
  name misses the cache and both the A and the AAAA query fail, \<open>resolveDNS\<close> returns the
  empty list after these two queries and stores it under \<open>dns:\<close> and the host name with
  expiry one hour after the instant of the store; every resolution of the same name on
  the cache as left by the first, up to that instant, returns the cached empty list and
  sends no query, whatever the resolver would answer by then.
\<close>

theorem failed_resolution_cached:
  assumes "fst (cacheGet t0 m (''dns:'' @ h)) = None"
      and "isl (resolve4 r h)" and "isl (resolve6 r h)"
      and "ttlL (cache m) = 3600000"
      and "t1 \<le> s0 + 3600000"
  shows "fst (resolveDNS r t0 s0 m h) = ([], [(QueryA, h), (QueryAAAA, h)])
       \<and> find (\<lambda>i. fst i = ''dns:'' @ h) (items (cache (snd (resolveDNS r t0 s0 m h)))) =
           Some (''dns:'' @ h, \<lparr> valueE = [], expiresAt = s0 + 3600000 \<rparr>, s0)
       \<and> fst (resolveDNS r' t1 s1 (snd (resolveDNS r t0 s0 m h)) h) = ([], [])"
proof -
  obtain m' where g: "cacheGet t0 m (''dns:'' @ h) = (None, m')"
    using assms(1) by (cases "cacheGet t0 m (''dns:'' @ h)") simp
  have c: "ttlL (cache m') = 3600000"
    using g assms(4)
    by (auto simp: cacheGet_def lruGet_def lruDelete_def split: option.splits prod.splits if_splits)
  have f: "resolveFactory r h = ([], [(QueryA, h), (QueryAAAA, h)])"
    using assms(2,3) by (auto simp: resolveFactory_def split: sum.splits)
  have s: "resolveDNS r t0 s0 m h = (([], [(QueryA, h), (QueryAAAA, h)]), cacheSet s0 m' (''dns:'' @ h) [] (Some 3600000))"
    using g by (simp add: resolveDNS_def getOrSet_def f)
  have 2: "find (\<lambda>i. fst i = ''dns:'' @ h) (items (cache (cacheSet s0 m' (''dns:'' @ h) [] (Some 3600000)))) =
           Some (''dns:'' @ h, \<lparr> valueE = [], expiresAt = s0 + 3600000 \<rparr>, s0)"
    by (simp add: cacheSet_def find_lruSet itemStart_def c Let_def)
  have "fst (cacheGet t1 (cacheSet s0 m' (''dns:'' @ h) [] (Some 3600000)) (''dns:'' @ h)) = Some []"
    using assms(5) c by (simp add: cacheGet_after_set Let_def isStale_def itemStart_def)
  then obtain m2 where "cacheGet t1 (cacheSet s0 m' (''dns:'' @ h) [] (Some 3600000)) (''dns:'' @ h) = (Some [], m2)"
    by (cases "cacheGet t1 (cacheSet s0 m' (''dns:'' @ h) [] (Some 3600000)) (''dns:'' @ h)") simp
  then have "getOrSet t1 s1 (cacheSet s0 m' (''dns:'' @ h) [] (Some 3600000)) (''dns:'' @ h)
                (\<lambda>u. resolveFactory r' h) (Some 3600000) = (([], []), m2)"
    by (rule getOrSet_hit)
  then have 3: "fst (resolveDNS r' t1 s1 (cacheSet s0 m' (''dns:'' @ h) [] (Some 3600000)) h) = ([], [])"
    unfolding resolveDNS_def by simp
  show ?thesis using 2 3 unfolding s by simp
qed

text \<open>
  A name that does not resolve at first, asked again at the last instant of the hour from
  a resolver that would now answer.
\<close>

theorem failed_resolution_cached_witness:
  "fst (cacheGet 1000 newDnsCache (''dns:'' @ ''ghost.example.com'')) = None
   \<and> isl (resolve4 deadResolver ''ghost.example.com'')
   \<and> isl (resolve6 deadResolver ''ghost.example.com'')
   \<and> ttlL (cache newDnsCache) = 3600000
   \<and> (3601200 :: int) \<le> 1200 + 3600000
   \<and> fst (resolveDNS deadResolver 1000 1200 newDnsCache ''ghost.example.com'')
       = ([], [(QueryA, ''ghost.example.com''), (QueryAAAA, ''ghost.example.com'')])
   \<and> fst (resolveDNS liveResolver 3601200 3601201
             (snd (resolveDNS deadResolver 1000 1200 newDnsCache ''ghost.example.com''))
             ''ghost.example.com'') = ([], [])"
proof -
  have 1: "fst (cacheGet 1000 newDnsCache (''dns:'' @ ''ghost.example.com'')) = None"
    by (simp add: cacheGet_def lruGet_def newDnsCache_def newCacheManager_def)
  have 2: "isl (resolve4 deadResolver ''ghost.example.com'')" "isl (resolve6 deadResolver ''ghost.example.com'')"
    by (simp_all add: deadResolver_def)
  have 3: "ttlL (cache newDnsCache) = 3600000" by (simp add: newDnsCache_def newCacheManager_def)
  have 4: "(3601200 :: int) \<le> 1200 + 3600000" by simp
  show ?thesis
    using failed_resolution_cached [OF 1 2 3 4, of liveResolver 3601201] 1 2 3 by simp
qed

section \<open>Properties of the probe\<close>

subsection \<open>Redirect loop\<close>

lemma fetchLoop_stop:
  assumes "k \<le> M" and "nextHop env k url = None"
  shows "snd (fetchLoop env M url chain k) = chain"
proof (cases "request env k url")
  case None
  then show ?thesis using assms(1) by (simp add: fetchLoop.simps [of env M url chain k])
next
  case (Some r)
  note req = Some
  show ?thesis
  proof (cases "truthyHeader (headersR r ''location'')")
    case None
    then show ?thesis using assms(1) req
      by (simp add: fetchLoop.simps [of env M url chain k] Let_def)
  next
    case (Some raw)
    show ?thesis
    proof (cases "statusCodeR r \<ge> 300 \<and> statusCodeR r < 400")
      case True
      then have "resolveLocation env url raw = None"
        using assms(2) req Some by (simp add: nextHop_def)
      then show ?thesis using assms(1) req Some True
        by (simp add: fetchLoop.simps [of env M url chain k] Let_def)
    next
      case False
      then show ?thesis using assms(1) req Some
        by (auto simp: fetchLoop.simps [of env M url chain k] Let_def)
    qed
  qed
qed

lemma fetchLoop_chain:
  "fst (fetchLoop env M url chain k) = Some resp \<Longrightarrow>
     length (snd (fetchLoop env M url chain k)) + k \<le> length chain + M"
proof (induction env M url chain k rule: fetchLoop.induct)
  case (1 env M url chain k)
  show ?case
  proof (cases "k \<le> M")
    case False
    then show ?thesis using "1.prems" by (simp add: fetchLoop.simps [of env M url chain k])
  next
    case True
    show ?thesis
    proof (cases "nextHop env k url")
      case None
      have "snd (fetchLoop env M url chain k) = chain"
        using True None by (rule fetchLoop_stop)
      then show ?thesis using True by simp
    next
      case (Some loc)
      then obtain r raw where r: "request env k url = Some r"
          "truthyHeader (headersR r ''location'') = Some raw"
          "statusCodeR r \<ge> 300" "statusCodeR r < 400" "resolveLocation env url raw = Some loc"
        by (auto simp: nextHop_def split: option.splits if_splits)
      have step: "fetchLoop env M url chain k = fetchLoop env M loc (chain @ [loc]) (k + 1)"
        using True r by (simp add: fetchLoop.simps [of env M url chain k] Let_def)
      have "length (snd (fetchLoop env M loc (chain @ [loc]) (k + 1))) + (k + 1)
              \<le> length (chain @ [loc]) + M"
        using "1.IH" [OF True r(1) refl r(2) _ r(5)] r(3,4) "1.prems" step by simp
      then show ?thesis using step by simp
    qed
  qed
qed

lemma fetchLoop_hops:
  "hopsFrom env k url n \<Longrightarrow> M < k + n \<Longrightarrow> fst (fetchLoop env M url chain k) = None"
proof (induction env M url chain k arbitrary: n rule: fetchLoop.induct)
  case (1 env M url chain k)
  show ?case
  proof (cases "k \<le> M")
    case False
    then show ?thesis by (simp add: fetchLoop.simps [of env M url chain k])
  next
    case True
    then obtain n' where n: "n = Suc n'" using "1.prems"(2) by (cases n) auto
    then obtain loc where h: "nextHop env k url = Some loc" "hopsFrom env (Suc k) loc n'"
      using "1.prems"(1) by (auto split: option.splits)
    then obtain r raw where r: "request env k url = Some r"
        "truthyHeader (headersR r ''location'') = Some raw"
        "statusCodeR r \<ge> 300" "statusCodeR r < 400" "resolveLocation env url raw = Some loc"
      by (auto simp: nextHop_def split: option.splits if_splits)
    have step: "fetchLoop env M url chain k = fetchLoop env M loc (chain @ [loc]) (k + 1)"
      using True r by (simp add: fetchLoop.simps [of env M url chain k] Let_def)
    have "fst (fetchLoop env M loc (chain @ [loc]) (k + 1)) = None"
      using "1.IH" [OF True r(1) refl r(2) _ r(5), of n'] r(3,4) h(2) "1.prems"(2) n by simp
    then show ?thesis using step by simp
  qed
qed

subsection \<open>Cached values\<close>

lemma cacheAll_find:
  "list_all (\<lambda>i. P (valueE (fst (snd i)))) xs \<Longrightarrow> find (\<lambda>i. fst i = k) xs = Some (k', e, s)
     \<Longrightarrow> P (valueE e)"
proof (induction xs)
  case Nil
  then show ?case by simp
next
  case (Cons x xs)
  show ?case
  proof (cases "fst x = k")
    case True
    then have "x = (k', e, s)" using Cons.prems(2) by simp
    then show ?thesis using Cons.prems(1) by simp
  next
    case False
    then have "find (\<lambda>i. fst i = k) xs = Some (k', e, s)" using Cons.prems(2) by simp
    then show ?thesis using Cons.IH Cons.prems(1) by simp
  qed
qed

lemma list_all_filter: "list_all Q xs \<Longrightarrow> list_all Q (filter R xs)"
  by (induction xs) simp_all

lemma cacheAll_lruGet:
  assumes A: "list_all (\<lambda>i. P (valueE (fst (snd i)))) (items c)"
  shows "list_all (\<lambda>i. P (valueE (fst (snd i)))) (items (snd (lruGet now c k)))
       \<and> (\<forall>e. fst (lruGet now c k) = Some e \<longrightarrow> P (valueE e))"
proof (cases "find (\<lambda>i. fst i = k) (items c)")
  case None
  then show ?thesis using A by (simp add: lruGet_def)
next
  case (Some i)
  obtain k' e s where i: "i = (k', e, s)" by (cases i)
  have Pe: "P (valueE e)" using A Some unfolding i by (rule cacheAll_find)
  have F: "list_all (\<lambda>i. P (valueE (fst (snd i)))) (filter (\<lambda>i. fst i \<noteq> k) (items c))"
    using A by (rule list_all_filter)
  show ?thesis
  proof (cases "isStale (ttlL c) now s")
    case True
    then show ?thesis using Some F by (simp add: lruGet_def i lruDelete_def)
  next
    case False
    then show ?thesis using Some F Pe by (simp add: lruGet_def i)
  qed
qed

lemma cacheAll_cacheGet:
  assumes "cacheAll P m"
  shows "cacheAll P (snd (cacheGet now m k))"
    and "fst (cacheGet now m k) = Some v \<Longrightarrow> P v"
proof -
  obtain oe c where g: "lruGet now (cache m) k = (oe, c)" by (cases "lruGet now (cache m) k")
  have A: "list_all (\<lambda>i. P (valueE (fst (snd i)))) (items (cache m))"
    using assms by (simp add: cacheAll_def)
  have a: "list_all (\<lambda>i. P (valueE (fst (snd i)))) (items c)"
    and b: "\<forall>e. oe = Some e \<longrightarrow> P (valueE e)"
    using cacheAll_lruGet [OF A, of now k] g by simp_all
  have d: "list_all (\<lambda>i. P (valueE (fst (snd i)))) (items (lruDelete c k))"
    using a by (simp add: lruDelete_def list_all_filter)
  show "cacheAll P (snd (cacheGet now m k))"
  proof (cases oe)
    case None
    then show ?thesis using a g by (simp add: cacheGet_def cacheAll_def)
  next
    case (Some e)
    then show ?thesis using a d g by (simp add: cacheGet_def cacheAll_def)
  qed
  show "fst (cacheGet now m k) = Some v \<Longrightarrow> P v"
  proof (cases oe)
    case None
    assume "fst (cacheGet now m k) = Some v"
    then show ?thesis using None g by (simp add: cacheGet_def)
  next
    case (Some e)
    assume "fst (cacheGet now m k) = Some v"
    then have "v = valueE e" using Some g by (simp add: cacheGet_def split: if_splits)
    then show ?thesis using b Some by simp
  qed
qed

lemma cacheAll_lruSet:
  assumes A: "list_all (\<lambda>i. P (valueE (fst (snd i)))) (items c)" and "P (valueE e)"
  shows "list_all (\<lambda>i. P (valueE (fst (snd i)))) (items (lruSet now c k e))"
proof (cases "list_ex (\<lambda>i. fst i = k) (items c)")
  case True
  then show ?thesis using list_all_filter [OF A] assms(2) by (simp add: lruSet_def)
next
  case False
  have "list_all (\<lambda>i. P (valueE (fst (snd i)))) (tl (items c))"
    using A by (cases "items c") simp_all
  then show ?thesis using False A assms(2) by (simp add: lruSet_def)
qed

lemma cacheAll_cacheSet:
  assumes "cacheAll P m" and "P v"
  shows "cacheAll P (cacheSet now m k v ttl)"
  using assms cacheAll_lruSet [of P "cache m" "\<lparr> valueE = v, expiresAt = now + (case ttl of None \<Rightarrow> defaultTTL m | Some t \<Rightarrow> t) \<rparr>" now k]
  by (simp add: cacheAll_def cacheSet_def Let_def)

lemma cacheAll_new: "cacheAll P (newCacheManager n t)"
  by (simp add: cacheAll_def newCacheManager_def)

subsection \<open>Shape of a probe\<close>

lemma probeHost_inv:
  assumes inv: "cacheAll P pc"
      and new: "\<And>r. redirectChain r = snd (fetchWithRedirects env host addr proto portN 5) \<Longrightarrow>
                    endpoints r = probeEndpoints env ce host proto portN \<Longrightarrow>
                    fst (fetchWithRedirects env host addr proto portN 5) \<noteq> None \<Longrightarrow> P r"
  shows "cacheAll P (snd (probeHost env pc ce host addr proto portN))
       \<and> (\<forall>r. fst (probeHost env pc ce host addr proto portN) = Some r \<longrightarrow> P r)"
proof -
  let ?key = "probeCacheKey proto host addr portN"
  obtain oc pc1 where g: "cacheGet (getTime env) pc ?key = (oc, pc1)"
    by (cases "cacheGet (getTime env) pc ?key")
  obtain fr chain where f: "fetchWithRedirects env host addr proto portN 5 = (fr, chain)"
    by (cases "fetchWithRedirects env host addr proto portN 5")
  have pc1: "cacheAll P pc1" using cacheAll_cacheGet(1) [OF inv, of "getTime env" ?key] g by simp
  show ?thesis
  proof (cases oc)
    case (Some cached)
    have "P cached" using cacheAll_cacheGet(2) [OF inv, of "getTime env" ?key cached] g Some by simp
    then show ?thesis using pc1 g Some by (simp add: probeHost_def)
  next
    case None
    note miss = None
    show ?thesis
    proof (cases fr)
      case None
      then show ?thesis using pc1 g f miss by (simp add: probeHost_def)
    next
      case (Some resp)
      show ?thesis
      proof (cases "bodyR resp")
        case None
        then show ?thesis using pc1 g f miss Some by (simp add: probeHost_def)
      next
        case (Some body)
        obtain r where r: "fst (probeHost env pc ce host addr proto portN) = Some r"
            "snd (probeHost env pc ce host addr proto portN) = cacheSet (setTime env) pc1 ?key r None"
            "redirectChain r = chain" "endpoints r = probeEndpoints env ce host proto portN"
          using g f miss \<open>fr = Some resp\<close> Some by (simp add: probeHost_def Let_def)
        have "P r" using new [of r] r(3,4) f \<open>fr = Some resp\<close> by simp
        then show ?thesis using r(1,2) pc1 by (simp add: cacheAll_cacheSet)
      qed
    qed
  qed
qed

lemma probeHost_miss_None:
  assumes "fst (cacheGet (getTime env) pc (probeCacheKey proto host addr portN)) = None"
      and "fst (fetchWithRedirects env host addr proto portN 5) = None"
  shows "fst (probeHost env pc ce host addr proto portN) = None"
proof -
  obtain pc1 where g: "cacheGet (getTime env) pc (probeCacheKey proto host addr portN) = (None, pc1)"
    using assms(1) by (cases "cacheGet (getTime env) pc (probeCacheKey proto host addr portN)") simp
  obtain chain where f: "fetchWithRedirects env host addr proto portN 5 = (None, chain)"
    using assms(2) by (cases "fetchWithRedirects env host addr proto portN 5") simp
  show ?thesis using g f by (simp add: probeHost_def)
qed

lemma probeFrom_inv:
  assumes step: "\<And>env pc host addr proto portN. cacheAll P pc \<Longrightarrow>
            cacheAll P (snd (probeHost env pc ce host addr proto portN))
            \<and> (\<forall>r. fst (probeHost env pc ce host addr proto portN) = Some r \<longrightarrow> P r)"
      and inv: "cacheAll P pc"
  shows "cacheAll P (snd (probeFrom k envs pc ce tasks)) \<and> list_all P (fst (probeFrom k envs pc ce tasks))"
  using inv
proof (induction tasks arbitrary: k pc)
  case Nil
  then show ?case by simp
next
  case (Cons t ts)
  obtain host addr proto portN where t: "t = (host, addr, proto, portN)" by (cases t)
  obtain res pc1 where h: "probeHost (envs k) pc ce host addr proto portN = (res, pc1)"
    by (cases "probeHost (envs k) pc ce host addr proto portN")
  have s: "cacheAll P pc1" "\<forall>r. res = Some r \<longrightarrow> P r"
    using step [OF Cons.prems, of "envs k" host addr proto portN] h by simp_all
  have ih: "cacheAll P (snd (probeFrom (Suc k) envs pc1 ce ts)) \<and> list_all P (fst (probeFrom (Suc k) envs pc1 ce ts))"
    using s(1) by (rule Cons.IH)
  show ?case using ih s(2) h by (cases res) (simp_all add: t split_beta)
qed

lemma probeHost_chainOk:
  assumes "cacheAll chainOk pc"
  shows "cacheAll chainOk (snd (probeHost env pc ce host addr proto portN))
       \<and> (\<forall>r. fst (probeHost env pc ce host addr proto portN) = Some r \<longrightarrow> chainOk r)"
proof -
  have new: "chainOk r"
    if a: "redirectChain r = snd (fetchWithRedirects env host addr proto portN 5)"
      and b: "fst (fetchWithRedirects env host addr proto portN 5) \<noteq> None" for r
  proof -
    obtain resp where "fst (fetchLoop env 5 (startUrl proto addr portN) [] 0) = Some resp"
      using b by (auto simp: fetchWithRedirects_def)
    then have "length (snd (fetchLoop env 5 (startUrl proto addr portN) [] 0)) + 0
                 \<le> length ([] :: string list) + 5"
      by (rule fetchLoop_chain)
    then show ?thesis using a by (simp add: chainOk_def fetchWithRedirects_def)
  qed
  show ?thesis using assms new by (rule probeHost_inv)
qed

text \<open>
  Claim C4.  A probe attempt has no error result: it yields a record or nothing.  On a
  cache whose records all have at most five redirects, every record an attempt yields has
  a redirect chain of at most five entries, and the cache keeps that property; so every
  record that \<open>probeHosts\<close> returns, starting from the empty cache, has at most five.
  And when the attempt is not served from the cache and six requests in a row are
  redirects (the loop would go beyond five hops), the attempt yields nothing.
\<close>

theorem redirect_limit:
  "(cacheAll chainOk pc \<longrightarrow>
      cacheAll chainOk (snd (probeHost env pc ce host addr proto portN))
      \<and> (\<forall>r. fst (probeHost env pc ce host addr proto portN) = Some r \<longrightarrow> length (redirectChain r) \<le> 5))
   \<and> (\<forall>r \<in> set (fst (probeHosts envs newProbeCache ce subdomains)). length (redirectChain r) \<le> 5)
   \<and> (fst (cacheGet (getTime env) pc (probeCacheKey proto host addr portN)) = None
        \<and> hopsFrom env 0 (startUrl proto addr portN) 6
      \<longrightarrow> fst (probeHost env pc ce host addr proto portN) = None)"
proof -
  have 1: "cacheAll chainOk (snd (probeHost env pc ce host addr proto portN))
      \<and> (\<forall>r. fst (probeHost env pc ce host addr proto portN) = Some r \<longrightarrow> chainOk r)"
    if "cacheAll chainOk pc"
    using that by (rule probeHost_chainOk)
  have "cacheAll chainOk newProbeCache" unfolding newProbeCache_def by (rule cacheAll_new)
  then have "list_all chainOk (fst (probeHosts envs newProbeCache ce subdomains))"
    unfolding probeHosts_def using probeFrom_inv [of chainOk ce, OF probeHost_chainOk] by blast
  then have 3: "\<forall>r \<in> set (fst (probeHosts envs newProbeCache ce subdomains)). length (redirectChain r) \<le> 5"
    by (simp add: list_all_iff chainOk_def)
  have 2: "fst (probeHost env pc ce host addr proto portN) = None"
    if c: "fst (cacheGet (getTime env) pc (probeCacheKey proto host addr portN)) = None"
      and d: "hopsFrom env 0 (startUrl proto addr portN) 6"
  proof -
    have "fst (fetchLoop env 5 (startUrl proto addr portN) [] 0) = None"
      using d by (rule fetchLoop_hops) simp
    then have "fst (fetchWithRedirects env host addr proto portN 5) = None"
      by (simp add: fetchWithRedirects_def)
    with c show ?thesis by (rule probeHost_miss_None)
  qed
  show ?thesis using 1 2 3 by (auto simp: chainOk_def)
qed

lemma fiveHop_fetch:
  "fst (fetchWithRedirects (fiveHopEnv \<lparr> endpointRequest := q \<rparr>) ''example.com'' ''10.0.0.1'' Https 443 5)
     = Some okResponse"
  by (simp add: fetchWithRedirects_def fetchLoop.simps fiveHopEnv_def baseEnv_def
        redirectResponse_def okResponse_def truthyHeader_def resolveLocation_def Let_def)

lemma fresh_probe_miss: "fst (cacheGet t newProbeCache k) = None"
  by (simp add: newProbeCache_def newCacheManager_def cacheGet_def lruGet_def)

lemma fiveHop_probe:
  "fst (probeHost (fiveHopEnv \<lparr> endpointRequest := q \<rparr>) newProbeCache ce ''example.com'' ''10.0.0.1'' Https 443) \<noteq> None"
proof -
  let ?env = "fiveHopEnv \<lparr> endpointRequest := q \<rparr>"
  obtain pc1 where g: "cacheGet (getTime ?env) newProbeCache (probeCacheKey Https ''example.com'' ''10.0.0.1'' 443) = (None, pc1)"
    using fresh_probe_miss [of "getTime ?env" "probeCacheKey Https ''example.com'' ''10.0.0.1'' 443"]
    by (cases "cacheGet (getTime ?env) newProbeCache (probeCacheKey Https ''example.com'' ''10.0.0.1'' 443)") simp
  obtain chain where f: "fetchWithRedirects ?env ''example.com'' ''10.0.0.1'' Https 443 5 = (Some okResponse, chain)"
    using fiveHop_fetch [of q] by (cases "fetchWithRedirects ?env ''example.com'' ''10.0.0.1'' Https 443 5") simp
  show ?thesis using g f by (simp add: probeHost_def Let_def okResponse_def)
qed

lemma loop_hops: "hopsFrom loopEnv 0 (startUrl Https ''10.0.0.1'' 443) 6"
proof -
  have "nextHop loopEnv k u = Some (''https://10.0.0.1:443/next'')" for k u
    by (simp add: nextHop_def loopEnv_def baseEnv_def redirectResponse_def truthyHeader_def
          resolveLocation_def)
  then show ?thesis by (simp add: eval_nat_numeral)
qed

text \<open>
  A server that answers after five redirects gives a record with five redirects; a server
  that always redirects gives nothing.
\<close>

theorem redirect_limit_witness:
  "cacheAll chainOk newProbeCache
   \<and> fst (probeHost fiveHopEnv newProbeCache [] ''example.com'' ''10.0.0.1'' Https 443) \<noteq> None
   \<and> length (redirectChain (the (fst (probeHost fiveHopEnv newProbeCache [] ''example.com'' ''10.0.0.1'' Https 443)))) \<le> 5
   \<and> fst (cacheGet (getTime loopEnv) newProbeCache (probeCacheKey Https ''example.com'' ''10.0.0.1'' 443)) = None
   \<and> hopsFrom loopEnv 0 (startUrl Https ''10.0.0.1'' 443) 6
   \<and> fst (probeHost loopEnv newProbeCache [] ''example.com'' ''10.0.0.1'' Https 443) = None"
proof -
  have c: "cacheAll chainOk newProbeCache" unfolding newProbeCache_def by (rule cacheAll_new)
  have s: "fst (probeHost fiveHopEnv newProbeCache [] ''example.com'' ''10.0.0.1'' Https 443) \<noteq> None"
    using fiveHop_probe [of "endpointRequest fiveHopEnv" "[]"] by simp
  have m: "fst (cacheGet (getTime loopEnv) newProbeCache (probeCacheKey Https ''example.com'' ''10.0.0.1'' 443)) = None"
    by (rule fresh_probe_miss)
  show ?thesis
    using redirect_limit [of newProbeCache fiveHopEnv "[]" "''example.com''" "''10.0.0.1''" Https 443 "\<lambda>k. fiveHopEnv" "[]"]
          redirect_limit [of newProbeCache loopEnv "[]" "''example.com''" "''10.0.0.1''" Https 443 "\<lambda>k. loopEnv" "[]"]
          c s m loop_hops
    by auto
qed

subsection \<open>Endpoint checks\<close>

lemma root_in_expandPaths: "''/'' \<in> set (expandPaths ce)"
  by (simp add: expandPaths_def setAdd_def Let_def)

lemma path_checkEndpoint: "path (checkEndpoint env host proto portN p) = p"
  by (simp add: checkEndpoint_def Let_def split: option.splits)

lemma set_probeEndpoints:
  "set (probeEndpoints env ce host proto portN) = checkEndpoint env host proto portN ` set (expandPaths ce)"
  by (simp add: probeEndpoints_def Let_def)

lemma hasRoot_probeEndpoints: "hasRoot (probeEndpoints env ce host proto portN)"
proof -
  have "checkEndpoint env host proto portN ''/'' \<in> set (probeEndpoints env ce host proto portN)"
    using root_in_expandPaths [of ce] by (simp add: set_probeEndpoints)
  moreover have "path (checkEndpoint env host proto portN ''/'') = ''/''" by (rule path_checkEndpoint)
  ultimately show ?thesis unfolding hasRoot_def list_ex_iff by blast
qed

lemma existingFirst_sorted: "sorted (map existsRank es) \<Longrightarrow> existingFirst es"
  unfolding existingFirst_def
proof (intro allI impI)
  fix i j
  assume s: "sorted (map existsRank es)" and i: "i < length es" and j: "j < length es"
     and e: "exists (es ! i) \<and> \<not> exists (es ! j)"
  show "i < j"
  proof (rule ccontr)
    assume "\<not> i < j"
    then have "j \<le> i" by simp
    then have "map existsRank es ! j \<le> map existsRank es ! i"
      using s i by (simp add: sorted_iff_nth_mono)
    then show False using e i j by (simp add: existsRank_def)
  qed
qed

lemma existingFirst_probeEndpoints: "existingFirst (probeEndpoints env ce host proto portN)"
  by (rule existingFirst_sorted) (simp add: probeEndpoints_def Let_def)

lemma probeHost_endpointsOk:
  assumes "cacheAll endpointsOk pc"
  shows "cacheAll endpointsOk (snd (probeHost env pc ce host addr proto portN))
       \<and> (\<forall>r. fst (probeHost env pc ce host addr proto portN) = Some r \<longrightarrow> endpointsOk r)"
proof -
  have new: "endpointsOk r" if "endpoints r = probeEndpoints env ce host proto portN" for r
    using that by (simp add: endpointsOk_def hasRoot_probeEndpoints existingFirst_probeEndpoints)
  show ?thesis using assms new by (rule probeHost_inv)
qed

text \<open>
  Claim C8.  The endpoint list that \<open>probeEndpoints\<close> returns contains a check for the
  root path, and every check whose \<open>exists\<close> flag is true stands before every check whose
  flag is false.  Hence on a cache whose records all have these two properties, every
  record a probe attempt yields has them, and the cache keeps them; so every record that
  \<open>probeHosts\<close> returns, starting from the empty cache, has them.
\<close>

theorem endpoints_root_and_order:
  "hasRoot (probeEndpoints env ce host proto portN)
   \<and> existingFirst (probeEndpoints env ce host proto portN)
   \<and> (cacheAll endpointsOk pc \<longrightarrow>
        cacheAll endpointsOk (snd (probeHost env pc ce host addr proto portN))
        \<and> (\<forall>r. fst (probeHost env pc ce host addr proto portN) = Some r \<longrightarrow>
               hasRoot (endpoints r) \<and> existingFirst (endpoints r)))
   \<and> (\<forall>r \<in> set (fst (probeHosts envs newProbeCache ce subdomains)).
          hasRoot (endpoints r) \<and> existingFirst (endpoints r))"
proof -
  have 1: "cacheAll endpointsOk (snd (probeHost env pc ce host addr proto portN))
      \<and> (\<forall>r. fst (probeHost env pc ce host addr proto portN) = Some r \<longrightarrow> endpointsOk r)"
    if "cacheAll endpointsOk pc"
    using that by (rule probeHost_endpointsOk)
  have "cacheAll endpointsOk newProbeCache" unfolding newProbeCache_def by (rule cacheAll_new)
  then have "list_all endpointsOk (fst (probeHosts envs newProbeCache ce subdomains))"
    unfolding probeHosts_def using probeFrom_inv [of endpointsOk ce, OF probeHost_endpointsOk] by blast
  then have 2: "\<forall>r \<in> set (fst (probeHosts envs newProbeCache ce subdomains)).
          hasRoot (endpoints r) \<and> existingFirst (endpoints r)"
    by (simp add: list_all_iff endpointsOk_def)
  show ?thesis
    using 1 2 hasRoot_probeEndpoints [of env ce host proto portN]
          existingFirst_probeEndpoints [of env ce host proto portN]
    by (auto simp: endpointsOk_def)
qed

lemma admin_checks:
  "probeEndpoints adminEnv [''/admin''] ''example.com'' Http 80 =
     [\<lparr> path = ''/admin'', statusCodeE = 200, exists = True, notesE = None \<rparr>,
      \<lparr> path = ''/admin/'', statusCodeE = 0, exists = False, notesE = None \<rparr>,
      \<lparr> path = ''/admin.php'', statusCodeE = 0, exists = False, notesE = None \<rparr>,
      \<lparr> path = ''/admin.asp'', statusCodeE = 0, exists = False, notesE = None \<rparr>,
      \<lparr> path = ''/'', statusCodeE = 404, exists = False, notesE = None \<rparr>]"
proof -
  have p: "expandPaths [''/admin''] = [''/admin'', ''/admin/'', ''/admin.php'', ''/admin.asp'', ''/'']"
    by (simp add: expandPaths_def addVariations_def setAdd_def endsWith_def Let_def)
  have n: "numToString 80 = ''80''" by (simp add: numToString.simps decDigit_def)
  show ?thesis
    by (simp add: probeEndpoints_def p checkEndpoint_def endpointUrl_def schemeName_def n
          adminEnv_def fiveHopEnv_def baseEnv_def okResponse_def notFoundResponse_def
          endpointNote_def regexTest_def toLowerCase_def lowerChar_def existsRank_def Let_def)
qed

text \<open>A probe where only \<open>/admin\<close> exists.\<close>

theorem endpoints_root_and_order_witness:
  "cacheAll endpointsOk newProbeCache
   \<and> fst (probeHost adminEnv newProbeCache [''/admin''] ''example.com'' ''10.0.0.1'' Https 443) \<noteq> None
   \<and> hasRoot (endpoints (the (fst (probeHost adminEnv newProbeCache [''/admin''] ''example.com'' ''10.0.0.1'' Https 443))))
   \<and> existingFirst (endpoints (the (fst (probeHost adminEnv newProbeCache [''/admin''] ''example.com'' ''10.0.0.1'' Https 443))))
   \<and> existingFirst (probeEndpoints adminEnv [''/admin''] ''example.com'' Http 80)"
proof -
  have c: "cacheAll endpointsOk newProbeCache" unfolding newProbeCache_def by (rule cacheAll_new)
  have s: "fst (probeHost adminEnv newProbeCache [''/admin''] ''example.com'' ''10.0.0.1'' Https 443) \<noteq> None"
    unfolding adminEnv_def by (rule fiveHop_probe)
  show ?thesis
    using endpoints_root_and_order [of adminEnv "[''/admin'']" "''example.com''" Https 443 newProbeCache "''10.0.0.1''" "\<lambda>k. adminEnv" "[]"]
          endpoints_root_and_order [of adminEnv "[''/admin'']" "''example.com''" Http 80 newProbeCache "''10.0.0.1''" "\<lambda>k. adminEnv" "[]"]
          c s
    by auto
qed

subsection \<open>The exists flag\<close>

text \<open>
  Claim C7, as the code has it.  For every check that endpoint discovery returns: if the
  request got a response, the status code is that of the response and the \<open>exists\<close> flag
  is true exactly when the status code is below 400; if the request failed or timed out,
  the status code is 0 and the flag is false.  In both cases a true flag implies a status
  code below 400.
\<close>

theorem exists_flag_of_answered_checks:
  "\<forall>e \<in> set (probeEndpoints env ce host proto portN).
     (exists e \<longrightarrow> statusCodeE e < 400)
     \<and> (case endpointRequest env (endpointUrl proto host portN (path e)) of
          Some resp \<Rightarrow> statusCodeE e = statusCodeR resp \<and> (exists e \<longleftrightarrow> statusCodeE e < 400)
        | None \<Rightarrow> statusCodeE e = 0 \<and> \<not> exists e)"
proof
  fix e assume "e \<in> set (probeEndpoints env ce host proto portN)"
  then obtain p where e: "e = checkEndpoint env host proto portN p"
    by (auto simp: set_probeEndpoints)
  show "(exists e \<longrightarrow> statusCodeE e < 400)
     \<and> (case endpointRequest env (endpointUrl proto host portN (path e)) of
          Some resp \<Rightarrow> statusCodeE e = statusCodeR resp \<and> (exists e \<longleftrightarrow> statusCodeE e < 400)
        | None \<Rightarrow> statusCodeE e = 0 \<and> \<not> exists e)"
    unfolding e path_checkEndpoint
    by (cases "endpointRequest env (endpointUrl proto host portN p)")
       (simp_all add: checkEndpoint_def Let_def)
qed

text \<open>
  The claim as stated, which includes failed requests, does not hold: when no request is
  answered, the check of the root path has status code 0, which is below 400, and its
  \<open>exists\<close> flag is false.
\<close>

theorem exists_flag_counterexample:
  "probeEndpoints baseEnv [] ''example.com'' Http 80 =
     [\<lparr> path = ''/'', statusCodeE = 0, exists = False, notesE = None \<rparr>]
   \<and> \<not> (exists (hd (probeEndpoints baseEnv [] ''example.com'' Http 80))
          \<longleftrightarrow> statusCodeE (hd (probeEndpoints baseEnv [] ''example.com'' Http 80)) < 400)"
proof -
  have p: "expandPaths [] = [''/'']" by (simp add: expandPaths_def setAdd_def Let_def)
  have "probeEndpoints baseEnv [] ''example.com'' Http 80 =
     [\<lparr> path = ''/'', statusCodeE = 0, exists = False, notesE = None \<rparr>]"
    by (simp add: probeEndpoints_def p checkEndpoint_def baseEnv_def Let_def)
  then show ?thesis by simp
qed

text \<open>One answered and one failed check of the same probe.\<close>

theorem exists_flag_of_answered_checks_witness:
  "\<lparr> path = ''/admin'', statusCodeE = 200, exists = True, notesE = None \<rparr>
      \<in> set (probeEndpoints adminEnv [''/admin''] ''example.com'' Http 80)
   \<and> endpointRequest adminEnv (endpointUrl Http ''example.com'' 80 ''/admin'') = Some okResponse
   \<and> \<lparr> path = ''/admin.php'', statusCodeE = 0, exists = False, notesE = None \<rparr>
      \<in> set (probeEndpoints adminEnv [''/admin''] ''example.com'' Http 80)
   \<and> endpointRequest adminEnv (endpointUrl Http ''example.com'' 80 ''/admin.php'') = None"
proof -
  have n: "numToString 80 = ''80''" by (simp add: numToString.simps decDigit_def)
  have u: "endpointRequest adminEnv (endpointUrl Http ''example.com'' 80 ''/admin'') = Some okResponse"
     "endpointRequest adminEnv (endpointUrl Http ''example.com'' 80 ''/admin.php'') = None"
    by (simp_all add: adminEnv_def endpointUrl_def schemeName_def n)
  show ?thesis
    using exists_flag_of_answered_checks [of adminEnv "[''/admin'']" "''example.com''" Http 80] u
    by (simp add: admin_checks)
qed

section \<open>Properties of the TLS fingerprint\<close>

lemma unat_ucast_16_32: "unat (ucast (u :: 16 word) :: 32 word) = unat u"
proof -
  have "unat u < 2 ^ 16" using unsigned_less [of u] by simp
  then have "unat u < 2 ^ 32" by simp
  then show ?thesis by (simp add: unsigned_ucast_eq take_bit_nat_eq_self_iff)
qed

lemma fnvLoop_spec: "unat (fnvLoop h us) = foldl fnv1a_step_spec (unat h) (map unat us)"
proof (induction us arbitrary: h)
  case Nil show ?case by simp
next
  case (Cons u us)
  have "unat ((h XOR ucast u) * 16777619) = fnv1a_step_spec (unat h) (unat u)"
    by (simp add: fnv1a_step_spec_def unat_word_ariths unsigned_xor_eq unat_ucast_16_32)
  then show ?case using Cons by simp
qed

lemma hexDigit_value: "d < 16 \<Longrightarrow> hexDigitValue (hexDigit d) = d \<and> hexDigit d \<in> set ''0123456789abcdef''"
proof -
  assume "d < 16"
  then have "d = 0 \<or> d = 1 \<or> d = 2 \<or> d = 3 \<or> d = 4 \<or> d = 5 \<or> d = 6 \<or> d = 7 \<or> d = 8
      \<or> d = 9 \<or> d = 10 \<or> d = 11 \<or> d = 12 \<or> d = 13 \<or> d = 14 \<or> d = 15"
    by arith
  then show ?thesis
    by (elim disjE) (simp_all add: hexDigit_def hexDigitValue_def)
qed

lemma hexValue_snoc: "hexValue (s @ [ch]) = 16 * hexValue s + hexDigitValue ch"
  by (simp add: hexValue_def)

lemma toString16_hex:
  "hexValue (toString16 n) = n \<and> set (toString16 n) \<subseteq> set ''0123456789abcdef''"
proof (induction n rule: toString16.induct)
  case (1 n)
  show ?case
  proof (cases "n < 16")
    case True
    then show ?thesis using hexDigit_value [of n]
      by (simp add: toString16.simps [of n] hexValue_def)
  next
    case False
    have d: "hexDigitValue (hexDigit (n mod 16)) = n mod 16"
       "hexDigit (n mod 16) \<in> set ''0123456789abcdef''"
      using hexDigit_value [of "n mod 16"] by simp_all
    have t: "toString16 n = toString16 (n div 16) @ [hexDigit (n mod 16)]"
      using False by (simp add: toString16.simps [of n])
    have "hexValue (toString16 n) = 16 * (n div 16) + n mod 16"
      unfolding t hexValue_snoc using "1.IH" [OF False] d(1) by simp
    moreover have "set (toString16 n) \<subseteq> set ''0123456789abcdef''"
      unfolding t using "1.IH" [OF False] d(2) by simp
    ultimately show ?thesis by simp
  qed
qed

text \<open>
  Claim C9.  For every protocol string \<open>p\<close> and cipher string \<open>c\<close>, with the signature
  algorithm absent, \<open>computeJA3Lite\<close> returns \<open>ja3lite-\<close> followed by the lowercase
  hexadecimal rendering of the 32-bit FNV-1a hash, as the specification words it, of the code
  units of \<open>p|c|unknown\<close>.  The fingerprint that the handshake callback attaches for a
  negotiated protocol \<open>p\<close> and cipher name \<open>c\<close> (neither of them empty) is that same
  string; a protocol or cipher name that is missing or empty is hashed as the word
  \<open>unknown\<close>.  The rendering of a number uses the digits \<open>0123456789abcdef\<close> only and
  reads back, in base 16, as that number.
\<close>

theorem ja3lite_is_fnv1a32:
  "computeJA3Lite (Some p) (Some c) None =
     ''ja3lite-'' @ toString16 (fnv1a32_spec (map unat (p @ units ''|'' @ c @ units ''|unknown'')))
   \<and> (p \<noteq> [] \<and> c \<noteq> [] \<longrightarrow>
        handshakeJA3Lite (Some p) (Some c) =
          ''ja3lite-'' @ toString16 (fnv1a32_spec (map unat (p @ units ''|'' @ c @ units ''|unknown''))))
   \<and> (getProtocol = None \<or> getProtocol = Some [] \<longrightarrow>
        handshakeJA3Lite getProtocol getCipherName =
          handshakeJA3Lite (Some (units ''unknown'')) getCipherName)
   \<and> (getCipherName = None \<or> getCipherName = Some [] \<longrightarrow>
        handshakeJA3Lite getProtocol getCipherName =
          handshakeJA3Lite getProtocol (Some (units ''unknown'')))
   \<and> hexValue (toString16 n) = n
   \<and> set (toString16 n) \<subseteq> set ''0123456789abcdef''"
proof -
  let ?H = "\<lambda>p c. ''ja3lite-'' @ toString16 (fnv1a32_spec (map unat (p @ units ''|'' @ c @ units ''|unknown'')))"
  have u: "units ''|'' @ units ''unknown'' = units ''|unknown''"
    by (simp add: units_def)
  have b: "unat (2166136261 :: 32 word) = 2166136261" by simp
  have h: "computeJA3Lite (Some p) (Some c) None = ?H p c" for p c
  proof -
    have "computeJA3Lite (Some p) (Some c) None =
       ''ja3lite-'' @ toString16 (unat (fnvLoop 2166136261 (p @ units ''|'' @ c @ units ''|'' @ units ''unknown'')))"
      by (simp add: computeJA3Lite_def Let_def)
    also have "\<dots> = ''ja3lite-'' @ toString16 (unat (fnvLoop 2166136261 (p @ units ''|'' @ c @ units ''|unknown'')))"
      by (simp only: u)
    also have "\<dots> = ?H p c"
      by (simp only: fnvLoop_spec b fnv1a32_spec_def)
    finally show ?thesis .
  qed
  have k: "units ''unknown'' \<noteq> []" by (simp add: units_def)
  have 1: "computeJA3Lite (Some p) (Some c) None = ?H p c" by (rule h)
  have 2: "p \<noteq> [] \<and> c \<noteq> [] \<longrightarrow> handshakeJA3Lite (Some p) (Some c) = ?H p c"
    by (simp add: handshakeJA3Lite_def orUnknown_def h)
  have 3: "getProtocol = None \<or> getProtocol = Some [] \<longrightarrow>
        handshakeJA3Lite getProtocol getCipherName =
          handshakeJA3Lite (Some (units ''unknown'')) getCipherName"
    using k by (auto simp: handshakeJA3Lite_def orUnknown_def)
  have 4: "getCipherName = None \<or> getCipherName = Some [] \<longrightarrow>
        handshakeJA3Lite getProtocol getCipherName =
          handshakeJA3Lite getProtocol (Some (units ''unknown''))"
    using k by (auto simp: handshakeJA3Lite_def orUnknown_def)
  show ?thesis using 1 2 3 4 toString16_hex [of n] by blast
qed

text \<open>
  The theorem at a TLS 1.3 handshake, and at a handshake that reports the cipher but no
  protocol.
\<close>

theorem ja3lite_is_fnv1a32_witness:
  "units ''TLSv1.3'' \<noteq> [] \<and> units ''TLS_AES_256_GCM_SHA384'' \<noteq> []
   \<and> handshakeJA3Lite (Some (units ''TLSv1.3'')) (Some (units ''TLS_AES_256_GCM_SHA384'')) =
     ''ja3lite-'' @ toString16 (fnv1a32_spec (map unat (units ''TLSv1.3|TLS_AES_256_GCM_SHA384|unknown'')))
   \<and> handshakeJA3Lite None (Some (units ''TLS_AES_256_GCM_SHA384'')) =
     handshakeJA3Lite (Some (units ''unknown'')) (Some (units ''TLS_AES_256_GCM_SHA384''))
   \<and> handshakeJA3Lite (Some (units ''TLSv1.3'')) (Some []) =
     handshakeJA3Lite (Some (units ''TLSv1.3'')) (Some (units ''unknown''))"
proof -
  have a: "units ''TLSv1.3'' \<noteq> []" "units ''TLS_AES_256_GCM_SHA384'' \<noteq> []"
    by (simp_all add: units_def)
  have e: "units ''TLSv1.3'' @ units ''|'' @ units ''TLS_AES_256_GCM_SHA384'' @ units ''|unknown''
      = units ''TLSv1.3|TLS_AES_256_GCM_SHA384|unknown''"
    by (simp add: units_def)
  show ?thesis
    using ja3lite_is_fnv1a32 [of "units ''TLSv1.3''" "units ''TLS_AES_256_GCM_SHA384''" None
             "Some (units ''TLS_AES_256_GCM_SHA384'')" 0]
          ja3lite_is_fnv1a32 [of "units ''TLSv1.3''" "units ''TLS_AES_256_GCM_SHA384''"
             "Some (units ''TLSv1.3'')" "Some []" 0]
          a
    unfolding e by blast
qed

lemma handshakeJA3Lite_tls13:
  "handshakeJA3Lite (Some (units ''TLSv1.3'')) (Some (units ''TLS_AES_256_GCM_SHA384''))
     = ''ja3lite-d55b92cb''"
proof -
  have "fnvLoop 2166136261 (units ''TLSv1.3|TLS_AES_256_GCM_SHA384|unknown'') = 3579548363"
    by (simp add: units_def)
  moreover have "toString16 3579548363 = ''d55b92cb''"
    by (simp add: toString16.simps hexDigit_def)
  ultimately show ?thesis
    by (simp add: handshakeJA3Lite_def orUnknown_def computeJA3Lite_def units_def)
qed

lemma handshakeJA3Lite_unknown:
  "handshakeJA3Lite None None = ''ja3lite-f31904bd''"
proof -
  have "fnvLoop 2166136261 (units ''unknown|unknown|unknown'') = 4078503101"
    by (simp add: units_def)
  moreover have "toString16 4078503101 = ''f31904bd''"
    by (simp add: toString16.simps hexDigit_def)
  ultimately show ?thesis
    by (simp add: handshakeJA3Lite_def orUnknown_def computeJA3Lite_def units_def)
qed

end
